theory Spec2Isabelle
  imports Complex_Main "HOL-Library.Multiset"
begin

section \<open>Errors and results\<close>

text \<open>
  \<^verbatim>\<open>errors.ts\<close>: the library throws one typed error, \<^verbatim>\<open>ArtoError\<close>, whose
  constructor prefixes the message with \<^verbatim>\<open>[Arto Error]: \<close>. Anything else that is
  thrown, by code of the user (plugins, dependency functions) or by the engine, is a
  \<open>ForeignError\<close>; \<open>TypeError\<close> is the engine's error for calling what is not a
  function and for spreading what is not iterable, whatever its message.
\<close>

datatype error = ArtoError string | ForeignError string

definition throwError :: "string \<Rightarrow> error" where
  "throwError message = ArtoError (''[Arto Error]: '' @ message)"

definition TypeError :: error where
  "TypeError = ForeignError ''TypeError''"

text \<open>
  A computation either does not return (\<open>None\<close>), or throws (\<open>Some (Inl e)\<close>), or
  returns a value (\<open>Some (Inr x)\<close>).
\<close>

type_synonym 'a res = "(error + 'a) option"

definition ok :: "'a \<Rightarrow> 'a res" where
  "ok x = Some (Inr x)"

definition throw :: "error \<Rightarrow> 'a res" where
  "throw e = Some (Inl e)"

definition then_res :: "'a res \<Rightarrow> ('a \<Rightarrow> 'b res) \<Rightarrow> 'b res" where
  "then_res m f = (case m of None \<Rightarrow> None | Some (Inl e) \<Rightarrow> Some (Inl e) | Some (Inr x) \<Rightarrow> f x)"

section \<open>JavaScript objects and sets\<close>

text \<open>
  A plain object is the list of its own properties in enumeration order, a \<^verbatim>\<open>Set\<close> the
  list of its members in insertion order. The objects that the code enumerates are keyed
  by variant keys and state names; these are taken not to be canonical array indices, so
  that enumeration order is insertion order.
\<close>

type_synonym 'a obj = "(string \<times> 'a) list"

definition obj_get :: "'a obj \<Rightarrow> string \<Rightarrow> 'a option" where
  "obj_get obj k = map_of obj k"

fun obj_set :: "'a obj \<Rightarrow> string \<Rightarrow> 'a \<Rightarrow> 'a obj" where
  "obj_set [] k v = [(k, v)]"
| "obj_set ((k', v') # rest) k v =
     (if k' = k then (k, v) # rest else (k', v') # obj_set rest k v)"

definition set_add :: "'a \<Rightarrow> 'a list \<Rightarrow> 'a list" where
  "set_add x xs = (if x \<in> set xs then xs else xs @ [x])"

text \<open>
  A property read \<^verbatim>\<open>obj[key]\<close> finds an own property of the object and, failing that,
  the member of \<^verbatim>\<open>Object.prototype\<close> of that name, which every plain object inherits.
  These members are functions, except \<^verbatim>\<open>__proto__\<close>, whose value is an object; none is
  an array, and all are truthy.
\<close>

definition object_prototype_names :: "string list" where
  "object_prototype_names =
     [''constructor'', ''__defineGetter__'', ''__defineSetter__'', ''hasOwnProperty'',
      ''__lookupGetter__'', ''__lookupSetter__'', ''isPrototypeOf'', ''propertyIsEnumerable'',
      ''toString'', ''valueOf'', ''__proto__'', ''toLocaleString'']"

definition inherited :: "string \<Rightarrow> bool" where
  "inherited key = (key \<in> set object_prototype_names)"

section \<open>Class expressions (types/class-name.ts)\<close>

text \<open>
  A class expression as \<^verbatim>\<open>normalizeClassName\<close> meets it at run time: a string, an
  array, a function (a reference \<open>Fn f\<close> to a function of the heap), \<^verbatim>\<open>null\<close> or
  \<^verbatim>\<open>undefined\<close>, or any other value (a number, a boolean, a plain object), of which
  only its truthiness matters. An array is written out with its items (\<open>Arr\<close>) or it is
  the array at an address of the heap (\<open>ArrRef\<close>); only an array of the second kind can
  contain itself. Strings are lists of code units below 256.
\<close>

datatype class_name =
    Str string
  | Arr "class_name list"
  | ArrRef nat
  | Fn nat
  | Nullish
  | Unsupported bool

fun truthy :: "class_name \<Rightarrow> bool" where
  "truthy (Str s) = (s \<noteq> [])"
| "truthy (Arr xs) = True"
| "truthy (ArrRef a) = True"
| "truthy (Fn f) = True"
| "truthy Nullish = False"
| "truthy (Unsupported t) = t"

text \<open>What a function does when it is called with the context: it returns or throws.\<close>

datatype thrown = ErrorObject string | NonError string

datatype cb_result = Returns class_name | Throws thrown

text \<open>
  The heap: what each function does when it is called with the context (\<open>call\<close>), the
  items of each array that is held by reference (\<open>elements\<close>), and the function that
  every object inherits under a name of \<^verbatim>\<open>Object.prototype\<close> (\<open>builtin\<close>). Functions
  are taken to have no effect on the heap. The limits of an engine (the size of a
  \<^verbatim>\<open>Set\<close>, the depth of the call stack) are not part of the model.
\<close>

record 'c heap =
  call :: "nat \<Rightarrow> 'c option \<Rightarrow> cb_result"
  elements :: "nat \<Rightarrow> class_name list"
  builtin :: "string \<Rightarrow> nat"

text \<open>The value that a plain object inherits under a name of \<^verbatim>\<open>Object.prototype\<close>.\<close>

definition inherited_member :: "'c heap \<Rightarrow> string \<Rightarrow> class_name" where
  "inherited_member heap key =
     (if key = ''__proto__'' then Unsupported True else Fn (builtin heap key))"

text \<open>
  \<^verbatim>\<open>obj[key]\<close> on a plain object whose own values are of type \<open>'a\<close>; \<open>as\<close> tells how
  a value that is not one of the configuration is seen at that type.
\<close>

definition read_property :: "(class_name \<Rightarrow> 'a) \<Rightarrow> 'c heap \<Rightarrow> 'a obj \<Rightarrow> string \<Rightarrow> 'a option" where
  "read_property as heap obj key =
     (case obj_get obj key of
        Some v \<Rightarrow> Some v
      | None \<Rightarrow> if inherited key then Some (as (inherited_member heap key)) else None)"

text \<open>
  \<^verbatim>\<open>isClassNameType\<close>: a string, an array or a function.
\<close>

fun isClassNameType :: "class_name \<Rightarrow> bool" where
  "isClassNameType (Str s) = True"
| "isClassNameType (Arr xs) = True"
| "isClassNameType (ArrRef a) = True"
| "isClassNameType (Fn f) = True"
| "isClassNameType Nullish = False"
| "isClassNameType (Unsupported t) = False"

section \<open>normalizeClassName (utils/normalize-class-name.ts)\<close>

text \<open>
  The regular expression \<^verbatim>\<open>\s\<close> on code units below 256: tab, line feed, vertical
  tab, form feed, carriage return, space and no-break space.
\<close>

definition is_whitespace :: "char \<Rightarrow> bool" where
  "is_whitespace c =
     (c = CHR 0x09 \<or> c = CHR 0x0A \<or> c = CHR 0x0B \<or> c = CHR 0x0C \<or> c = CHR 0x0D \<or>
      c = CHR 0x20 \<or> c = CHR 0xA0)"

text \<open>
  \<^verbatim>\<open>item.split(/\s+/)\<close>: \<open>cur\<close> is the fragment read so far; a maximal run of
  whitespace ends it. Like the JavaScript method it returns empty fragments for
  leading and trailing whitespace, and \<^verbatim>\<open>[""]\<close> for the empty string.
\<close>

function split_ws :: "string \<Rightarrow> string \<Rightarrow> string list" where
  "split_ws cur [] = [cur]"
| "split_ws cur (c # cs) =
     (if is_whitespace c then cur # split_ws [] (dropWhile is_whitespace cs)
      else split_ws (cur @ [c]) cs)"
  by pat_completeness auto
termination
  by (relation "measure (\<lambda>(cur, s). length s)")
     (auto simp: le_imp_less_Suc length_dropWhile_le)

text \<open>\<^verbatim>\<open>.split(/\s+/).filter(Boolean)\<close>: the non-empty fragments.\<close>

definition fragments :: "string \<Rightarrow> string list" where
  "fragments s = filter (\<lambda>cls. cls \<noteq> []) (split_ws [] s)"

text \<open>
  The observable effects of one normalization besides its result: the calls of
  callbacks and the warnings about cyclic callbacks, in the order they happen.
\<close>

datatype effect = Called nat | WarnedCyclic nat

text \<open>
  The loop of \<^verbatim>\<open>normalizeClassName\<close>. \<open>stack\<close> has its top at the head, \<open>result\<close>
  and \<open>seenCallbacks\<close> are the two sets. An array pushes its items from the last to the
  first, so that the first is on top; the items of an array held by reference are those
  that the heap has for it.
\<close>

partial_function (option) normalize_loop ::
  "'c heap \<Rightarrow> 'c option \<Rightarrow> class_name list \<Rightarrow> string list \<Rightarrow> nat list \<Rightarrow> effect list
     \<Rightarrow> (error + string list \<times> effect list) option" where
  "normalize_loop heap context stack result seenCallbacks trace =
     (case stack of
        [] \<Rightarrow> Some (Inr (result, trace))
      | item # rest \<Rightarrow>
          (case item of
             Nullish \<Rightarrow> normalize_loop heap context rest result seenCallbacks trace
           | Str s \<Rightarrow>
               normalize_loop heap context rest (fold set_add (fragments s) result)
                 seenCallbacks trace
           | Arr items \<Rightarrow>
               normalize_loop heap context (fold (#) (rev items) rest) result seenCallbacks trace
           | ArrRef a \<Rightarrow>
               normalize_loop heap context (fold (#) (rev (elements heap a)) rest) result
                 seenCallbacks trace
           | Fn f \<Rightarrow>
               if f \<in> set seenCallbacks
               then normalize_loop heap context rest result seenCallbacks (trace @ [WarnedCyclic f])
               else
                 (case call heap f context of
                    Returns resolved \<Rightarrow>
                      if truthy resolved
                      then normalize_loop heap context (resolved # rest) result
                             (set_add f seenCallbacks) (trace @ [Called f])
                      else normalize_loop heap context rest result
                             (set_add f seenCallbacks) (trace @ [Called f])
                  | Throws (ErrorObject message) \<Rightarrow>
                      Some (Inl (throwError (''Error resolving class function: '' @ message)))
                  | Throws (NonError str) \<Rightarrow>
                      Some (Inl (throwError (''Error resolving class function: '' @ str))))
           | Unsupported t \<Rightarrow> normalize_loop heap context rest result seenCallbacks trace))"

definition normalize_run ::
  "'c heap \<Rightarrow> class_name \<Rightarrow> 'c option \<Rightarrow> (error + string list \<times> effect list) option" where
  "normalize_run heap classInput context = normalize_loop heap context [classInput] [] [] []"

definition normalizeClassName :: "'c heap \<Rightarrow> class_name \<Rightarrow> 'c option \<Rightarrow> string list res" where
  "normalizeClassName heap classInput context =
     (case normalize_run heap classInput context of
        None \<Rightarrow> None
      | Some (Inl e) \<Rightarrow> Some (Inl e)
      | Some (Inr (result, trace)) \<Rightarrow> Some (Inr result))"

section \<open>Boolean logic of rules (plugins/rules-plugin.ts, types/rules.ts)\<close>

text \<open>
  \<^verbatim>\<open>LogicOperator\<close>; \<open>OtherOperator\<close> is a string outside the union, which the
  \<^verbatim>\<open>switch\<close> sends to its \<^verbatim>\<open>default\<close> branch. \<open>None\<close> is an omitted operator.
\<close>

datatype logic_operator = AND | OR | NOT | XOR | IMPLIES | OtherOperator

definition evaluateSimpleLogic :: "bool list \<Rightarrow> logic_operator option \<Rightarrow> bool" where
  "evaluateSimpleLogic conditions op =
     (case (case op of None \<Rightarrow> AND | Some l \<Rightarrow> l) of
        AND \<Rightarrow> list_all (\<lambda>c. c) conditions
      | OR \<Rightarrow> list_ex (\<lambda>c. c) conditions
      | NOT \<Rightarrow> list_all (\<lambda>c. \<not> c) conditions
      | XOR \<Rightarrow> length (filter (\<lambda>c. c) conditions) = 1
      | IMPLIES \<Rightarrow>
          (if length conditions < 2 then True else \<not> conditions ! 0 \<or> conditions ! 1)
      | OtherOperator \<Rightarrow> list_all (\<lambda>c. c) conditions)"

record logic_object =
  logic_variants :: "logic_operator option"
  logic_states :: "logic_operator option"
  logic_combine :: "logic_operator option"

definition evaluateObjectLogic :: "bool list \<Rightarrow> bool list \<Rightarrow> logic_object \<Rightarrow> bool" where
  "evaluateObjectLogic variantBooleans stateBooleans logicObj =
     (let variants = (case logic_variants logicObj of None \<Rightarrow> AND | Some l \<Rightarrow> l);
          states = (case logic_states logicObj of None \<Rightarrow> AND | Some l \<Rightarrow> l);
          combine = (case logic_combine logicObj of None \<Rightarrow> AND | Some l \<Rightarrow> l);
          variantsPassed =
            (if variants = AND then list_all (\<lambda>c. c) variantBooleans
             else list_ex (\<lambda>c. c) variantBooleans);
          statesPassed =
            (if states = AND then list_all (\<lambda>c. c) stateBooleans
             else list_ex (\<lambda>c. c) stateBooleans)
      in if combine = AND then variantsPassed \<and> statesPassed
         else variantsPassed \<or> statesPassed)"

section \<open>Configuration (types/*.ts)\<close>

text \<open>
  A variant value is a string or a number; a number is kept as the string
  \<^verbatim>\<open>String(n)\<close>, which is its property key and its text in messages. In a selection
  the value \<open>None\<close> is \<^verbatim>\<open>null\<close> or \<^verbatim>\<open>undefined\<close>.
\<close>

datatype variant_value = VString string | VNumber string

fun String :: "variant_value \<Rightarrow> string" where
  "String (VString s) = s"
| "String (VNumber n) = n"

type_synonym selection = "variant_value option obj"

text \<open>
  \<^verbatim>\<open>selectedVariants[key]\<close> compared with \<^verbatim>\<open>null\<close>: a missing and a nullish
  property are alike. The read is one of own properties: the model follows the code for
  keys that are not \<open>inherited\<close>, or that the selection has as own properties.
\<close>

definition selected :: "selection \<Rightarrow> string \<Rightarrow> variant_value option" where
  "selected selectedVariants key =
     (case obj_get selectedVariants key of Some (Some v) \<Rightarrow> Some v | _ \<Rightarrow> None)"

text \<open>
  \<^verbatim>\<open>StateDependency\<close>: a list of state names and \<^verbatim>\<open>{ not: [...] }\<close> wrappers (whose
  \<^verbatim>\<open>not\<close> the code reads with \<^verbatim>\<open>?.\<close>), or a function of the active states and the
  context, which returns a boolean, throws, or does not return.
\<close>

datatype dependency = Active string | NotActive "string list option"

datatype 'c state_dependency =
    DependsOnList "dependency list"
  | DependsOnFn "string list \<Rightarrow> 'c option \<Rightarrow> bool res"

text \<open>
  An entry of a \<^verbatim>\<open>states\<close> map: a class expression (or any other value that has no
  \<^verbatim>\<open>className\<close> property), or a \<^verbatim>\<open>StateConfig\<close> object with its \<^verbatim>\<open>className\<close> and
  optional \<^verbatim>\<open>dependsOn\<close>.
\<close>

datatype 'c state_entry =
    StateClassName class_name
  | StateConfig class_name "'c state_dependency option"

text \<open>A property that an object may lack altogether (\<^verbatim>\<open>'states' in partial\<close>).\<close>

datatype 'a property = Absent | Present 'a

text \<open>
  An entry of a variant's value map: a class expression (or any other value with neither
  property), or an object with a \<^verbatim>\<open>className\<close> or a \<^verbatim>\<open>states\<close> property; a present
  \<^verbatim>\<open>states\<close> may still be nullish (\<open>Present None\<close>).
\<close>

datatype 'c variant_entry =
    VariantClassName class_name
  | VariantConfig "class_name property" "'c state_entry obj option property"

datatype states_scope = ScopeGlobal | ScopeVariant | ScopeAll

record rule_eval_meta =
  variantMatches :: "bool obj"
  stateMatches :: "bool obj"
  meta_selectedVariants :: selection
  meta_activeStates :: "string list"

datatype 'c arto_logic =
    LogicOperator logic_operator
  | LogicObject logic_object
  | LogicCallback "rule_eval_meta \<Rightarrow> 'c option \<Rightarrow> bool"

record 'c arto_rule_when =
  when_variants :: "variant_value list option obj option"
  when_states :: "string list option"
  when_logic :: "'c arto_logic option"

record arto_rule_remove =
  remove_variants :: "string list option"
  remove_states :: "string list option"
  statesScope :: "states_scope option"
  remove_base :: bool

record 'c arto_rule =
  rule_when :: "'c arto_rule_when"
  rule_remove :: "arto_rule_remove option"
  rule_add :: class_name

text \<open>
  \<^verbatim>\<open>ArtoConfig\<close>. An absent \<^verbatim>\<open>className\<close> (or \<^verbatim>\<open>add\<close> of a rule) is \<open>Nullish\<close>.
\<close>

record 'c arto_config =
  className :: class_name
  variants :: "'c variant_entry obj option obj option"
  states :: "'c state_entry obj option"
  rules :: "'c arto_rule list option"
  defaultVariants :: "selection option"

section \<open>ClassNameBuilder (classname-builder.ts)\<close>

text \<open>
  The fields of the builder that plugins reach through its methods. The two callback
  queues hold references into a table of callback code. The sorted plugin list
  \<^verbatim>\<open>allPlugins\<close> is private and read-only; it is passed beside the builder.
\<close>

record 'c builder =
  artoConfig :: "'c arto_config"
  selectedVariants :: selection
  activeStates :: "string list"
  builder_context :: "'c option"
  baseClassNames :: "string list"
  variantClassNames :: "string list obj"
  variantStateClassNames :: "string list obj obj"
  globalStateClassNames :: "string list obj"
  postCoreCallbacks :: "nat list"
  finalBuildCallbacks :: "nat list"

text \<open>
  A JavaScript number: a finite number (the real number that it denotes), an infinity,
  or \<^verbatim>\<open>NaN\<close>. The difference of two numbers, as far as a comparison function needs it:
  for finite numbers the rounded difference has the sign of the exact one.
\<close>

datatype number = Finite real | PlusInfinity | MinusInfinity | NaN

fun minus_number :: "number \<Rightarrow> number \<Rightarrow> number" where
  "minus_number NaN y = NaN"
| "minus_number (Finite x) NaN = NaN"
| "minus_number PlusInfinity NaN = NaN"
| "minus_number MinusInfinity NaN = NaN"
| "minus_number (Finite x) (Finite y) = Finite (x - y)"
| "minus_number (Finite x) PlusInfinity = MinusInfinity"
| "minus_number (Finite x) MinusInfinity = PlusInfinity"
| "minus_number PlusInfinity PlusInfinity = NaN"
| "minus_number PlusInfinity (Finite y) = PlusInfinity"
| "minus_number PlusInfinity MinusInfinity = PlusInfinity"
| "minus_number MinusInfinity MinusInfinity = NaN"
| "minus_number MinusInfinity (Finite y) = MinusInfinity"
| "minus_number MinusInfinity PlusInfinity = MinusInfinity"

text \<open>
  A plugin. Its \<^verbatim>\<open>stage\<close> is \<open>None\<close> when it is missing (falsy), its \<^verbatim>\<open>order\<close> when
  it is not of type number. What \<^verbatim>\<open>apply\<close> does to the builder is a function of the
  builder.
\<close>

datatype plugin_stage = Before | Core | After

record 'c plugin =
  plugin_id :: string
  stage :: "plugin_stage option"
  order :: "number option"
  plugin_apply :: "'c builder \<Rightarrow> 'c builder res"

type_synonym 'c callback_code = "nat \<Rightarrow> 'c builder \<Rightarrow> 'c builder res"

definition stagePriority :: "plugin_stage \<Rightarrow> int" where
  "stagePriority s = (case s of Before \<Rightarrow> 0 | Core \<Rightarrow> 1 | After \<Rightarrow> 2)"

subsection \<open>Bucket methods\<close>

definition addBaseClasses :: "string list \<Rightarrow> 'c builder \<Rightarrow> 'c builder" where
  "addBaseClasses classNames b = b\<lparr>baseClassNames := baseClassNames b @ classNames\<rparr>"

definition clearBaseClasses :: "'c builder \<Rightarrow> 'c builder" where
  "clearBaseClasses b = b\<lparr>baseClassNames := []\<rparr>"

definition getBaseClasses :: "'c builder \<Rightarrow> string list" where
  "getBaseClasses b = baseClassNames b"

text \<open>
  The buckets are plain objects that start empty. Reading a bucket under a name that is
  \<open>inherited\<close>, and not an own property, finds the inherited member, which is truthy:
  \<^verbatim>\<open>push\<close> on it, or spreading it, is a \<open>TypeError\<close>. The first key of the
  variant-level state buckets, a variant key, is read among own properties only (with an
  inherited variant key the code reads and writes the properties of the inherited member
  itself, which the builder does not hold). An assignment under the name \<^verbatim>\<open>__proto__\<close>
  is modelled like any other.
\<close>

definition addVariantClasses :: "string \<Rightarrow> string list \<Rightarrow> 'c builder \<Rightarrow> 'c builder res" where
  "addVariantClasses variantKey classNames b =
     (case obj_get (variantClassNames b) variantKey of
        Some classes \<Rightarrow>
          ok (b\<lparr>variantClassNames :=
                 obj_set (variantClassNames b) variantKey (classes @ classNames)\<rparr>)
      | None \<Rightarrow>
          if inherited variantKey then throw TypeError
          else ok (b\<lparr>variantClassNames :=
                      obj_set (variantClassNames b) variantKey ([] @ classNames)\<rparr>))"

definition replaceVariantClasses :: "string \<Rightarrow> string list \<Rightarrow> 'c builder \<Rightarrow> 'c builder" where
  "replaceVariantClasses variantKey classNames b =
     b\<lparr>variantClassNames := obj_set (variantClassNames b) variantKey classNames\<rparr>"

definition clearVariantClasses :: "string \<Rightarrow> 'c builder \<Rightarrow> 'c builder" where
  "clearVariantClasses variantKey b =
     b\<lparr>variantClassNames := obj_set (variantClassNames b) variantKey []\<rparr>"

definition addGlobalStateClasses :: "string \<Rightarrow> string list \<Rightarrow> 'c builder \<Rightarrow> 'c builder res" where
  "addGlobalStateClasses state classNames b =
     (case obj_get (globalStateClassNames b) state of
        Some classes \<Rightarrow>
          ok (b\<lparr>globalStateClassNames :=
                 obj_set (globalStateClassNames b) state (classes @ classNames)\<rparr>)
      | None \<Rightarrow>
          if inherited state then throw TypeError
          else ok (b\<lparr>globalStateClassNames :=
                      obj_set (globalStateClassNames b) state ([] @ classNames)\<rparr>))"

definition replaceGlobalStateClasses :: "string \<Rightarrow> string list \<Rightarrow> 'c builder \<Rightarrow> 'c builder" where
  "replaceGlobalStateClasses state classNames b =
     b\<lparr>globalStateClassNames := obj_set (globalStateClassNames b) state classNames\<rparr>"

definition clearGlobalStateClasses :: "string \<Rightarrow> 'c builder \<Rightarrow> 'c builder" where
  "clearGlobalStateClasses state b =
     b\<lparr>globalStateClassNames := obj_set (globalStateClassNames b) state []\<rparr>"

definition getGlobalStateClassesFor :: "'c builder \<Rightarrow> string \<Rightarrow> string list res" where
  "getGlobalStateClassesFor b state =
     (case obj_get (globalStateClassNames b) state of
        Some classes \<Rightarrow> ok classes
      | None \<Rightarrow> if inherited state then throw TypeError else ok [])"

definition addVariantStateClasses ::
  "string \<Rightarrow> string \<Rightarrow> string list \<Rightarrow> 'c builder \<Rightarrow> 'c builder res" where
  "addVariantStateClasses variantKey state classNames b =
     (let stateMap =
            (case obj_get (variantStateClassNames b) variantKey of None \<Rightarrow> [] | Some m \<Rightarrow> m)
      in case obj_get stateMap state of
           Some classes \<Rightarrow>
             ok (b\<lparr>variantStateClassNames :=
                    obj_set (variantStateClassNames b) variantKey
                      (obj_set stateMap state (classes @ classNames))\<rparr>)
         | None \<Rightarrow>
             if inherited state then throw TypeError
             else ok (b\<lparr>variantStateClassNames :=
                         obj_set (variantStateClassNames b) variantKey
                           (obj_set stateMap state ([] @ classNames))\<rparr>))"

definition replaceVariantStateClasses ::
  "string \<Rightarrow> string \<Rightarrow> string list \<Rightarrow> 'c builder \<Rightarrow> 'c builder" where
  "replaceVariantStateClasses variantKey state classNames b =
     (let stateMap =
            (case obj_get (variantStateClassNames b) variantKey of None \<Rightarrow> [] | Some m \<Rightarrow> m)
      in b\<lparr>variantStateClassNames :=
             obj_set (variantStateClassNames b) variantKey (obj_set stateMap state classNames)\<rparr>)"

definition clearVariantStateClasses :: "string \<Rightarrow> string \<Rightarrow> 'c builder \<Rightarrow> 'c builder" where
  "clearVariantStateClasses variantKey state b =
     (case obj_get (variantStateClassNames b) variantKey of
        None \<Rightarrow> b
      | Some stateMap \<Rightarrow>
          b\<lparr>variantStateClassNames :=
              obj_set (variantStateClassNames b) variantKey (obj_set stateMap state [])\<rparr>)"

text \<open>
  \<^verbatim>\<open>stateMap[state]\<close>, spread when it is truthy: the classes of an own property,
  nothing when there is no such property, a \<open>TypeError\<close> for an inherited member.
\<close>

definition state_classes :: "string list obj \<Rightarrow> string \<Rightarrow> string list res" where
  "state_classes stateMap state =
     (case obj_get stateMap state of
        Some classes \<Rightarrow> ok classes
      | None \<Rightarrow> if inherited state then throw TypeError else ok [])"

definition getVariantStateClasses :: "'c builder \<Rightarrow> string \<Rightarrow> string \<Rightarrow> string list res" where
  "getVariantStateClasses b variantKey state =
     (case obj_get (variantStateClassNames b) variantKey of
        None \<Rightarrow> ok []
      | Some stateMap \<Rightarrow> state_classes stateMap state)"

definition addPostCoreCallback :: "nat \<Rightarrow> 'c builder \<Rightarrow> 'c builder" where
  "addPostCoreCallback callback b = b\<lparr>postCoreCallbacks := postCoreCallbacks b @ [callback]\<rparr>"

definition addFinalBuildCallback :: "nat \<Rightarrow> 'c builder \<Rightarrow> 'c builder" where
  "addFinalBuildCallback callback b =
     b\<lparr>finalBuildCallbacks := finalBuildCallbacks b @ [callback]\<rparr>"

text \<open>
  A loop that appends to a list what each step gives, given up at the first step that
  throws.
\<close>

fun collect :: "('a \<Rightarrow> string list res) \<Rightarrow> 'a list \<Rightarrow> string list res" where
  "collect step [] = ok []"
| "collect step (x # xs) =
     then_res (step x) (\<lambda>classes. then_res (collect step xs) (\<lambda>more. ok (classes @ more)))"

definition getAllClasses :: "'c builder \<Rightarrow> string list res" where
  "getAllClasses b =
     then_res (collect (getGlobalStateClassesFor b) (activeStates b)) (\<lambda>globalClasses.
     then_res (collect (\<lambda>variantKey. collect (getVariantStateClasses b variantKey) (activeStates b))
                 (map fst (selectedVariants b))) (\<lambda>stateClasses.
     ok (baseClassNames b @ concat (map snd (variantClassNames b)) @ globalClasses
         @ stateClasses)))"

subsection \<open>Constructor\<close>

text \<open>
  The constructor gives every plugin a stage and a numeric order, then sorts the list
  with \<^verbatim>\<open>Array.prototype.sort\<close>. The method reads a result of the comparison function
  that is \<^verbatim>\<open>NaN\<close> as zero, and it is stable: \<open>js_sort\<close> inserts each element, from
  the last to the first, before the first element that it does not compare greater
  than. When no order is \<^verbatim>\<open>NaN\<close> the comparison function is a consistent order and
  this is the result of every stable sort. When an order is \<^verbatim>\<open>NaN\<close> it is not, and the
  language leaves the result to the engine; \<open>js_sort\<close> is then one possible result, and
  it is the result of every engine for a list whose neighbours all compare as ties,
  which no sort by comparison of elements has a reason to change.
\<close>

definition with_defaults :: "'c plugin \<Rightarrow> 'c plugin" where
  "with_defaults p =
     p\<lparr>stage := Some (case stage p of None \<Rightarrow> Core | Some s \<Rightarrow> s),
       order := Some (case order p of None \<Rightarrow> Finite 0 | Some n \<Rightarrow> n)\<rparr>"

definition stage_rank :: "'c plugin \<Rightarrow> int" where
  "stage_rank p = stagePriority (case stage p of None \<Rightarrow> Core | Some s \<Rightarrow> s)"

definition order_or_0 :: "'c plugin \<Rightarrow> number" where
  "order_or_0 p = (case order p of None \<Rightarrow> Finite 0 | Some n \<Rightarrow> n)"

definition compare_plugins :: "'c plugin \<Rightarrow> 'c plugin \<Rightarrow> number" where
  "compare_plugins a b =
     (let stageDiff = stage_rank a - stage_rank b
      in if stageDiff \<noteq> 0 then Finite (real_of_int stageDiff)
         else minus_number (order_or_0 a) (order_or_0 b))"

fun positive :: "number \<Rightarrow> bool" where
  "positive (Finite x) = (0 < x)"
| "positive PlusInfinity = True"
| "positive MinusInfinity = False"
| "positive NaN = False"

fun js_insert :: "('a \<Rightarrow> 'a \<Rightarrow> number) \<Rightarrow> 'a \<Rightarrow> 'a list \<Rightarrow> 'a list" where
  "js_insert cmp x [] = [x]"
| "js_insert cmp x (y # ys) =
     (if positive (cmp x y) then y # js_insert cmp x ys else x # y # ys)"

definition js_sort :: "('a \<Rightarrow> 'a \<Rightarrow> number) \<Rightarrow> 'a list \<Rightarrow> 'a list" where
  "js_sort cmp xs = foldr (js_insert cmp) xs []"

definition sorted_plugins :: "'c plugin list \<Rightarrow> 'c plugin list" where
  "sorted_plugins rawPlugins = js_sort compare_plugins (map with_defaults rawPlugins)"

definition ClassNameBuilder ::
  "'c arto_config \<Rightarrow> selection \<Rightarrow> string list \<Rightarrow> 'c option \<Rightarrow> 'c plugin list
     \<Rightarrow> 'c builder \<times> 'c plugin list" where
  "ClassNameBuilder config sel active ctx plugins =
     (\<lparr>artoConfig = config, selectedVariants = sel, activeStates = active,
       builder_context = ctx, baseClassNames = [], variantClassNames = [],
       variantStateClassNames = [], globalStateClassNames = [],
       postCoreCallbacks = [], finalBuildCallbacks = []\<rparr>,
      sorted_plugins plugins)"

subsection \<open>build\<close>

fun run_stage :: "plugin_stage \<Rightarrow> 'c plugin list \<Rightarrow> 'c builder \<Rightarrow> 'c builder res" where
  "run_stage s [] b = ok b"
| "run_stage s (plugin # rest) b =
     (if stage plugin = Some s then then_res (plugin_apply plugin b) (run_stage s rest)
      else run_stage s rest b)"

text \<open>
  \<^verbatim>\<open>for (const cb of queue) cb()\<close>: the array iterator reads the queue afresh at every
  step, so a callback queued while the loop runs is called too.
\<close>

partial_function (option) run_callbacks ::
  "'c callback_code \<Rightarrow> ('c builder \<Rightarrow> nat list) \<Rightarrow> nat \<Rightarrow> 'c builder
     \<Rightarrow> (error + 'c builder) option" where
  "run_callbacks code queue i b =
     (if i < length (queue b)
      then (case code (queue b ! i) b of
              None \<Rightarrow> None
            | Some (Inl e) \<Rightarrow> Some (Inl e)
            | Some (Inr b') \<Rightarrow> run_callbacks code queue (Suc i) b')
      else Some (Inr b))"

text \<open>
  The list that \<^verbatim>\<open>build\<close> collects after the plugins and the callbacks have run.
\<close>

definition final_list :: "'c builder \<Rightarrow> string list res" where
  "final_list b =
     then_res (collect (\<lambda>(vKey, stateMap). collect (state_classes stateMap) (activeStates b))
                 (variantStateClassNames b)) (\<lambda>stateClasses.
     ok (baseClassNames b
         @ concat (map snd (variantClassNames b))
         @ stateClasses
         @ concat (map snd (globalStateClassNames b))))"

definition build :: "'c callback_code \<Rightarrow> 'c plugin list \<Rightarrow> 'c builder \<Rightarrow> string list res" where
  "build code allPlugins b =
     then_res (run_stage Before allPlugins b) (\<lambda>b1.
     then_res (run_stage Core allPlugins b1) (\<lambda>b2.
     then_res (run_callbacks code postCoreCallbacks 0 b2) (\<lambda>b3.
     then_res (run_stage After allPlugins b3) (\<lambda>b4.
     then_res (run_callbacks code finalBuildCallbacks 0 b4) (\<lambda>b5.
     final_list b5)))))"

section \<open>Built-in plugins\<close>

subsection \<open>BaseClassNamePlugin (plugins/base-classname-plugin.ts)\<close>

definition BaseClassNamePlugin_apply :: "'c heap \<Rightarrow> 'c builder \<Rightarrow> 'c builder res" where
  "BaseClassNamePlugin_apply heap b =
     (if truthy (className (artoConfig b))
      then then_res (normalizeClassName heap (className (artoConfig b)) (builder_context b))
             (\<lambda>baseClassList. ok (addBaseClasses baseClassList b))
      else ok b)"

definition BaseClassNamePlugin :: "'c heap \<Rightarrow> number \<Rightarrow> 'c plugin" where
  "BaseClassNamePlugin heap n =
     \<lparr>plugin_id = ''arto/Internal/AddBaseClassesPlugin'', stage = Some Core, order = Some n,
      plugin_apply = BaseClassNamePlugin_apply heap\<rparr>"

subsection \<open>StatesPlugin (plugins/states-plugin.ts)\<close>

fun isStateConfig :: "'c state_entry \<Rightarrow> bool" where
  "isStateConfig (StateConfig cn dep) = True"
| "isStateConfig (StateClassName cn) = False"

fun state_entry_truthy :: "'c state_entry \<Rightarrow> bool" where
  "state_entry_truthy (StateConfig cn dep) = True"
| "state_entry_truthy (StateClassName cn) = truthy cn"

fun dependsOn :: "'c state_entry \<Rightarrow> 'c state_dependency option" where
  "dependsOn (StateConfig cn dep) = dep"
| "dependsOn (StateClassName cn) = None"

fun extractStateClassName :: "'c state_entry \<Rightarrow> error + class_name" where
  "extractStateClassName (StateConfig cn dep) = Inr cn"
| "extractStateClassName (StateClassName cn) =
     (if isClassNameType cn then Inr cn
      else Inl (throwError
        ''Invalid configuration for className. Expected ClassName or StateConfig.''))"

fun dependency_holds :: "string list \<Rightarrow> dependency \<Rightarrow> bool" where
  "dependency_holds active (Active st) = (st \<in> set active)"
| "dependency_holds active (NotActive None) = True"
| "dependency_holds active (NotActive (Some sts)) = (\<not> list_ex (\<lambda>st. st \<in> set active) sts)"

fun checkStateDependencies ::
  "'c state_dependency option \<Rightarrow> string list \<Rightarrow> 'c option \<Rightarrow> bool res" where
  "checkStateDependencies None active ctx = ok True"
| "checkStateDependencies (Some (DependsOnFn f)) active ctx = f active ctx"
| "checkStateDependencies (Some (DependsOnList deps)) active ctx =
     ok (list_all (dependency_holds active) deps)"

text \<open>
  The loop of \<^verbatim>\<open>StatesPlugin.apply\<close> over the active states that are left.
  \<^verbatim>\<open>this.stateConfigs[state]\<close> is a property read: for a state that is not declared
  but is named like a member of \<^verbatim>\<open>Object.prototype\<close> it finds that member.
\<close>

fun StatesPlugin_loop ::
  "'c heap \<Rightarrow> 'c state_entry obj \<Rightarrow> string list \<Rightarrow> 'c option \<Rightarrow> string list
     \<Rightarrow> 'c builder \<Rightarrow> 'c builder res" where
  "StatesPlugin_loop heap stateConfigs active ctx [] b = ok b"
| "StatesPlugin_loop heap stateConfigs active ctx (state # rest) b =
     (case read_property StateClassName heap stateConfigs state of
        None \<Rightarrow> StatesPlugin_loop heap stateConfigs active ctx rest b
      | Some stateConfig \<Rightarrow>
          if \<not> state_entry_truthy stateConfig
          then StatesPlugin_loop heap stateConfigs active ctx rest b
          else
            then_res
              (if isStateConfig stateConfig
               then checkStateDependencies (dependsOn stateConfig) active ctx
               else ok True)
              (\<lambda>met.
                 if \<not> met then StatesPlugin_loop heap stateConfigs active ctx rest b
                 else
                   (case extractStateClassName stateConfig of
                      Inl e \<Rightarrow> throw e
                    | Inr cn \<Rightarrow>
                        then_res (normalizeClassName heap cn ctx)
                          (\<lambda>newClassNames.
                             then_res (addGlobalStateClasses state newClassNames b)
                               (StatesPlugin_loop heap stateConfigs active ctx rest)))))"

definition StatesPlugin_apply ::
  "'c heap \<Rightarrow> 'c state_entry obj \<Rightarrow> 'c builder \<Rightarrow> 'c builder res" where
  "StatesPlugin_apply heap stateConfigs b =
     StatesPlugin_loop heap stateConfigs (activeStates b) (builder_context b) (activeStates b) b"

definition StatesPlugin :: "'c heap \<Rightarrow> 'c state_entry obj \<Rightarrow> number \<Rightarrow> 'c plugin" where
  "StatesPlugin heap stateConfigs n =
     \<lparr>plugin_id = ''arto/Internal/ApplyStateClassesPlugin'', stage = Some Core, order = Some n,
      plugin_apply = StatesPlugin_apply heap stateConfigs\<rparr>"

subsection \<open>VariantsPlugin (plugins/variants-plugin.ts)\<close>

fun variant_entry_truthy :: "'c variant_entry \<Rightarrow> bool" where
  "variant_entry_truthy (VariantConfig cn sts) = True"
| "variant_entry_truthy (VariantClassName cn) = truthy cn"

fun isVariantConfig :: "'c variant_entry \<Rightarrow> bool" where
  "isVariantConfig (VariantConfig cn sts) = (cn \<noteq> Absent \<or> sts \<noteq> Absent)"
| "isVariantConfig (VariantClassName cn) = False"

fun mergeVariantStates ::
  "'c heap \<Rightarrow> string \<Rightarrow> string list \<Rightarrow> 'c option \<Rightarrow> 'c state_entry obj \<Rightarrow> 'c builder
     \<Rightarrow> 'c builder res" where
  "mergeVariantStates heap variantKey active ctx [] b = ok b"
| "mergeVariantStates heap variantKey active ctx ((stateName, stateInput) # rest) b =
     (if \<not> state_entry_truthy stateInput
      then mergeVariantStates heap variantKey active ctx rest b
      else
        (case stateInput of
           StateClassName cn \<Rightarrow>
             if isClassNameType cn
             then then_res (normalizeClassName heap cn ctx)
                    (\<lambda>classList.
                       then_res (addVariantStateClasses variantKey stateName classList b)
                         (mergeVariantStates heap variantKey active ctx rest))
             else throw (throwError
                    (''Invalid state config for state '' @ [CHR 0x27] @ stateName @ [CHR 0x27]
                     @ '' ...''))
         | StateConfig cn dep \<Rightarrow>
             then_res (checkStateDependencies dep active ctx)
               (\<lambda>met.
                  if \<not> met then mergeVariantStates heap variantKey active ctx rest b
                  else then_res (normalizeClassName heap cn ctx)
                         (\<lambda>newClassList.
                            mergeVariantStates heap variantKey active ctx rest
                              (replaceVariantStateClasses variantKey stateName newClassList
                                 b)))))"

text \<open>
  \<^verbatim>\<open>processVariantConfig\<close> returns the variant's classes and, through
  \<^verbatim>\<open>mergeVariantStates\<close>, changes the builder.
\<close>

definition processVariantConfig ::
  "'c heap \<Rightarrow> string \<Rightarrow> 'c variant_entry \<Rightarrow> 'c option \<Rightarrow> 'c builder
     \<Rightarrow> (string list \<times> 'c builder) res" where
  "processVariantConfig heap variantKey variantConfig ctx b =
     (case variantConfig of
        VariantClassName cn \<Rightarrow>
          if isClassNameType cn
          then then_res (normalizeClassName heap cn ctx) (\<lambda>classes. ok (classes, b))
          else throw (throwError ''Invalid variant configuration item encountered.'')
      | VariantConfig cn sts \<Rightarrow>
          if isVariantConfig variantConfig
          then
            then_res
              (case cn of
                 Present c \<Rightarrow> if truthy c then normalizeClassName heap c ctx else ok []
               | Absent \<Rightarrow> ok [])
              (\<lambda>classes.
                 then_res
                   (case sts of
                      Present (Some statesObj) \<Rightarrow>
                        mergeVariantStates heap variantKey (activeStates b) ctx statesObj b
                    | _ \<Rightarrow> ok b)
                   (\<lambda>b'. ok (classes, b')))
          else throw (throwError ''Invalid variant configuration item encountered.''))"

definition invalid_value_message :: "variant_value \<Rightarrow> string \<Rightarrow> string" where
  "invalid_value_message userChosenValue variantKey =
     ''Invalid value '' @ [CHR 0x27] @ String userChosenValue @ [CHR 0x27]
     @ '' for variant '' @ [CHR 0x27] @ variantKey @ [CHR 0x27] @ ''.''"

text \<open>
  The loop of \<^verbatim>\<open>VariantsPlugin.apply\<close> over the variant keys that are left;
  \<open>vs\<close> is \<^verbatim>\<open>artoConfig.variants\<close> and \<open>sel\<close> the selection, both read before the loop.
  \<^verbatim>\<open>variantOptions[userChosenValue]\<close> is a property read: for a value that is not
  declared but is named like a member of \<^verbatim>\<open>Object.prototype\<close> it finds that member.
\<close>

fun VariantsPlugin_loop ::
  "'c heap \<Rightarrow> 'c variant_entry obj option obj \<Rightarrow> selection \<Rightarrow> 'c option \<Rightarrow> string list
     \<Rightarrow> 'c builder \<Rightarrow> 'c builder res" where
  "VariantsPlugin_loop heap vs sel ctx [] b = ok b"
| "VariantsPlugin_loop heap vs sel ctx (variantKey # keys) b =
     (case selected sel variantKey of
        None \<Rightarrow> VariantsPlugin_loop heap vs sel ctx keys b
      | Some userChosenValue \<Rightarrow>
          (case obj_get vs variantKey of
             Some (Some variantOptions) \<Rightarrow>
               (case read_property VariantClassName heap variantOptions
                       (String userChosenValue) of
                  None \<Rightarrow> throw (throwError (invalid_value_message userChosenValue variantKey))
                | Some variantConfig \<Rightarrow>
                    if \<not> variant_entry_truthy variantConfig
                    then throw (throwError (invalid_value_message userChosenValue variantKey))
                    else
                      then_res (processVariantConfig heap variantKey variantConfig ctx b)
                        (\<lambda>(variantClassList, b').
                           then_res (addVariantClasses variantKey variantClassList b')
                             (VariantsPlugin_loop heap vs sel ctx keys)))
           | _ \<Rightarrow> VariantsPlugin_loop heap vs sel ctx keys b))"

definition VariantsPlugin_apply :: "'c heap \<Rightarrow> 'c builder \<Rightarrow> 'c builder res" where
  "VariantsPlugin_apply heap b =
     (case variants (artoConfig b) of
        None \<Rightarrow> ok b
      | Some vs \<Rightarrow>
          VariantsPlugin_loop heap vs (selectedVariants b) (builder_context b) (map fst vs) b)"

definition VariantsPlugin :: "'c heap \<Rightarrow> number \<Rightarrow> 'c plugin" where
  "VariantsPlugin heap n =
     \<lparr>plugin_id = ''arto/Internal/ApplyVariantClassesPlugin'', stage = Some Core,
      order = Some n, plugin_apply = VariantsPlugin_apply heap\<rparr>"

subsection \<open>RulesPlugin (plugins/rules-plugin.ts)\<close>

definition variant_matches :: "variant_value list option obj \<Rightarrow> selection \<Rightarrow> bool obj" where
  "variant_matches whenVariants sel =
     fold (\<lambda>vKey matches.
             case obj_get whenVariants vKey of
               Some (Some acceptedValues) \<Rightarrow>
                 obj_set matches vKey
                   (case selected sel vKey of
                      None \<Rightarrow> False
                    | Some userValue \<Rightarrow> userValue \<in> set acceptedValues)
             | _ \<Rightarrow> matches)
       (map fst whenVariants) []"

definition state_matches :: "string list \<Rightarrow> string list \<Rightarrow> bool obj" where
  "state_matches whenStates active =
     fold (\<lambda>st matches. obj_set matches st (st \<in> set active)) whenStates []"

definition doesRuleApply ::
  "'c arto_rule_when \<Rightarrow> selection \<Rightarrow> string list \<Rightarrow> 'c option \<Rightarrow> bool" where
  "doesRuleApply w sel active ctx =
     (let vMatches = (case when_variants w of None \<Rightarrow> [] | Some wv \<Rightarrow> variant_matches wv sel);
          sMatches = (case when_states w of None \<Rightarrow> [] | Some ws \<Rightarrow> state_matches ws active);
          allBools = map snd vMatches @ map snd sMatches
      in case when_logic w of
           None \<Rightarrow> evaluateSimpleLogic allBools (Some AND)
         | Some (LogicOperator l) \<Rightarrow> evaluateSimpleLogic allBools (Some l)
         | Some (LogicObject lo) \<Rightarrow> evaluateObjectLogic (map snd vMatches) (map snd sMatches) lo
         | Some (LogicCallback f) \<Rightarrow>
             f \<lparr>variantMatches = vMatches, stateMatches = sMatches,
                meta_selectedVariants = sel, meta_activeStates = active\<rparr> ctx)"

definition remove_state :: "states_scope \<Rightarrow> string \<Rightarrow> 'c builder \<Rightarrow> 'c builder" where
  "remove_state scope st b =
     (let b1 = (if scope = ScopeAll \<or> scope = ScopeGlobal then clearGlobalStateClasses st b
                else b)
      in if scope = ScopeAll \<or> scope = ScopeVariant
         then fold (\<lambda>variantKey. clearVariantStateClasses variantKey st)
                (map fst (selectedVariants b1)) b1
         else b1)"

definition removeStuff :: "arto_rule_remove \<Rightarrow> 'c builder \<Rightarrow> 'c builder" where
  "removeStuff remove b =
     (let b1 = (case remove_variants remove of
                  None \<Rightarrow> b
                | Some vKeys \<Rightarrow> fold clearVariantClasses vKeys b);
          b2 = (case remove_states remove of
                  None \<Rightarrow> b1
                | Some sts \<Rightarrow>
                    fold (remove_state
                            (case statesScope remove of None \<Rightarrow> ScopeAll | Some sc \<Rightarrow> sc))
                      sts b1)
      in if remove_base remove then clearBaseClasses b2 else b2)"

definition apply_rule ::
  "'c heap \<Rightarrow> selection \<Rightarrow> string list \<Rightarrow> 'c option \<Rightarrow> 'c arto_rule \<Rightarrow> 'c builder
     \<Rightarrow> 'c builder res" where
  "apply_rule heap sel active ctx rule b =
     (if doesRuleApply (rule_when rule) sel active ctx
      then
        (let b1 = (case rule_remove rule of None \<Rightarrow> b | Some remove \<Rightarrow> removeStuff remove b)
         in if truthy (rule_add rule)
            then then_res (normalizeClassName heap (rule_add rule) ctx)
                   (\<lambda>newClassNames. ok (addBaseClasses newClassNames b1))
            else ok b1)
      else ok b)"

fun RulesPlugin_loop ::
  "'c heap \<Rightarrow> selection \<Rightarrow> string list \<Rightarrow> 'c option \<Rightarrow> 'c arto_rule list \<Rightarrow> 'c builder
     \<Rightarrow> 'c builder res" where
  "RulesPlugin_loop heap sel active ctx [] b = ok b"
| "RulesPlugin_loop heap sel active ctx (rule # rest) b =
     then_res (apply_rule heap sel active ctx rule b) (RulesPlugin_loop heap sel active ctx rest)"

definition RulesPlugin_apply :: "'c heap \<Rightarrow> 'c builder \<Rightarrow> 'c builder res" where
  "RulesPlugin_apply heap b =
     (case rules (artoConfig b) of
        None \<Rightarrow> ok b
      | Some rs \<Rightarrow>
          RulesPlugin_loop heap (selectedVariants b) (activeStates b) (builder_context b) rs b)"

definition RulesPlugin :: "'c heap \<Rightarrow> number \<Rightarrow> 'c plugin" where
  "RulesPlugin heap n =
     \<lparr>plugin_id = ''arto/Internal/RulesPlugin'', stage = Some Core, order = Some n,
      plugin_apply = RulesPlugin_apply heap\<rparr>"

section \<open>The public entry point (arto.ts) and its helpers\<close>

text \<open>\<^verbatim>\<open>safeMergeDefaults\<close>; an omitted second argument is the empty object.\<close>

definition safeMergeDefaults :: "selection \<Rightarrow> selection option \<Rightarrow> selection" where
  "safeMergeDefaults defaults userVariants =
     (let user = (case userVariants of None \<Rightarrow> [] | Some u \<Rightarrow> u)
      in fold (\<lambda>key final.
                 case selected user key of
                   None \<Rightarrow> final
                 | Some v \<Rightarrow> obj_set final key (Some v))
           (map fst user) defaults)"

text \<open>
  A value of the caller's state map: a boolean, or anything else.
\<close>

datatype state_flag = Boolean bool | NonBoolean

definition collectTrueKeys :: "state_flag obj option \<Rightarrow> string list" where
  "collectTrueKeys record =
     (case record of
        None \<Rightarrow> []
      | Some r \<Rightarrow> fold set_add (map fst (filter (\<lambda>(key, v). v = Boolean True) r)) [])"

record 'c arto_options =
  option_variants :: "selection option"
  option_states :: "state_flag obj option"
  option_context :: "'c option"

fun join :: "string list \<Rightarrow> string" where
  "join [] = []"
| "join [x] = x"
| "join (x # y # ys) = x @ '' '' @ join (y # ys)"

text \<open>
  \<open>hub\<close> is what \<^verbatim>\<open>pluginHub.getPlugins()\<close> returns at the call, \<open>plugins\<close> the local
  plugins given to \<^verbatim>\<open>arto\<close>, \<open>options\<close> the argument of the function that \<^verbatim>\<open>arto\<close>
  returns.
\<close>

definition internalPlugins :: "'c heap \<Rightarrow> 'c arto_config \<Rightarrow> 'c plugin list" where
  "internalPlugins heap config =
     (if truthy (className config) then [BaseClassNamePlugin heap (Finite 0)] else [])
     @ (case variants config of None \<Rightarrow> [] | Some vs \<Rightarrow> [VariantsPlugin heap (Finite 0)])
     @ (case states config of None \<Rightarrow> [] | Some sts \<Rightarrow> [StatesPlugin heap sts (Finite 0)])
     @ (case rules config of
          None \<Rightarrow> []
        | Some rs \<Rightarrow> if length rs > 0 then [RulesPlugin heap (Finite 3)] else [])"

definition arto_builder ::
  "'c heap \<Rightarrow> 'c plugin list \<Rightarrow> 'c arto_config \<Rightarrow> 'c plugin list option
     \<Rightarrow> 'c arto_options option \<Rightarrow> 'c builder \<times> 'c plugin list" where
  "arto_builder heap hub config plugins options =
     (let vars = (case options of None \<Rightarrow> None | Some opts \<Rightarrow> option_variants opts);
          defaults = (case defaultVariants config of None \<Rightarrow> [] | Some d \<Rightarrow> d);
          sts = (case options of None \<Rightarrow> None | Some opts \<Rightarrow> option_states opts);
          ctx = (case options of None \<Rightarrow> None | Some opts \<Rightarrow> option_context opts);
          sel = safeMergeDefaults defaults (Some (case vars of None \<Rightarrow> [] | Some v \<Rightarrow> v));
          active = collectTrueKeys (Some (case sts of None \<Rightarrow> [] | Some s \<Rightarrow> s));
          allPlugins = (case plugins of None \<Rightarrow> [] | Some ps \<Rightarrow> ps) @ hub;
          mergedPlugins = allPlugins @ internalPlugins heap config
      in ClassNameBuilder config sel active ctx mergedPlugins)"

definition arto ::
  "'c heap \<Rightarrow> 'c callback_code \<Rightarrow> 'c plugin list \<Rightarrow> 'c arto_config
     \<Rightarrow> 'c plugin list option \<Rightarrow> 'c arto_options option \<Rightarrow> string res" where
  "arto heap code hub config plugins options =
     (case arto_builder heap hub config plugins options of
        (builder, allPlugins) \<Rightarrow>
          then_res (build code allPlugins builder) (\<lambda>classList. ok (join classList)))"

section \<open>Notions used to state the properties\<close>

text \<open>
  The specification's reading of normalization, for expressions without callbacks whose
  arrays are all written out: the tokens of the strings, depth-first and from left to
  right, and of these the first occurrence of each.
\<close>

fun callback_free :: "class_name \<Rightarrow> bool" where
  "callback_free (Arr xs) = list_all callback_free xs"
| "callback_free (ArrRef a) = False"
| "callback_free (Fn f) = False"
| "callback_free (Str s) = True"
| "callback_free Nullish = True"
| "callback_free (Unsupported t) = True"

fun spec_tokens :: "class_name \<Rightarrow> string list" where
  "spec_tokens (Str s) = fragments s"
| "spec_tokens (Arr xs) = concat (map spec_tokens xs)"
| "spec_tokens (ArrRef a) = []"
| "spec_tokens (Fn f) = []"
| "spec_tokens Nullish = []"
| "spec_tokens (Unsupported t) = []"

text \<open>
  An expression with its arrays written out: every array held by reference is replaced
  by its items, through at most \<open>n\<close> references in a row. There is no such expression
  (\<open>None\<close>) when a chain of references is longer, as it is for every \<open>n\<close> when an array
  contains itself.
\<close>

fun unfold :: "nat \<Rightarrow> 'c heap \<Rightarrow> class_name \<Rightarrow> class_name option" where
  "unfold n heap (Str s) = Some (Str s)"
| "unfold n heap (Fn f) = Some (Fn f)"
| "unfold n heap Nullish = Some Nullish"
| "unfold n heap (Unsupported t) = Some (Unsupported t)"
| "unfold n heap (Arr xs) = map_option Arr (those (map (unfold n heap) xs))"
| "unfold 0 heap (ArrRef a) = None"
| "unfold (Suc n) heap (ArrRef a) =
     map_option Arr (those (map (unfold n heap) (elements heap a)))"

fun spec_first_occurrences :: "'a list \<Rightarrow> 'a list" where
  "spec_first_occurrences [] = []"
| "spec_first_occurrences (x # xs) = x # removeAll x (spec_first_occurrences xs)"

text \<open>A single token: a non-empty string without whitespace.\<close>

definition single_token :: "string \<Rightarrow> bool" where
  "single_token w = (w \<noteq> [] \<and> list_all (\<lambda>c. \<not> is_whitespace c) w)"

text \<open>The size of the work a stack holds, for termination arguments.\<close>

fun weight :: "class_name \<Rightarrow> nat" where
  "weight (Arr xs) = Suc (sum_list (map weight xs))"
| "weight (ArrRef a) = 1"
| "weight (Str s) = 1"
| "weight (Fn f) = 1"
| "weight Nullish = 1"
| "weight (Unsupported t) = 1"

text \<open>
  The callback references that occur in an expression as it is written, and a set of
  references that the results of its callbacks, with their arrays written out, do not
  leave.
\<close>

fun refs :: "class_name \<Rightarrow> nat set" where
  "refs (Fn f) = {f}"
| "refs (Arr xs) = \<Union> (set (map refs xs))"
| "refs (ArrRef a) = {}"
| "refs (Str s) = {}"
| "refs Nullish = {}"
| "refs (Unsupported t) = {}"

definition closed_under :: "nat \<Rightarrow> 'c heap \<Rightarrow> 'c option \<Rightarrow> nat set \<Rightarrow> bool" where
  "closed_under n heap ctx F =
     (\<forall>f \<in> F. case call heap f ctx of
         Returns r \<Rightarrow> (case unfold n heap r of None \<Rightarrow> False | Some t \<Rightarrow> refs t \<subseteq> F)
       | Throws t \<Rightarrow> True)"

text \<open>The callbacks that a trace records as called, in order.\<close>

fun called :: "effect list \<Rightarrow> nat list" where
  "called [] = []"
| "called (Called f # es) = f # called es"
| "called (WarnedCyclic f # es) = called es"

text \<open>
  A heap without arrays in which every function returns \<^verbatim>\<open>undefined\<close>; one with two
  callbacks that return one another; one in which every function returns itself; and one
  with the array of \<^verbatim>\<open>const a = []; a.push(a)\<close>, which contains itself, at every
  address.
\<close>

definition no_callbacks :: "unit heap" where
  "no_callbacks =
     \<lparr>call = (\<lambda>f ctx. Returns Nullish), elements = (\<lambda>a. []), builtin = (\<lambda>key. 0)\<rparr>"

definition cyclic_callbacks :: "unit heap" where
  "cyclic_callbacks =
     \<lparr>call = (\<lambda>f ctx. if f = 0 then Returns (Arr [Str ''a'', Fn 1])
                        else Returns (Arr [Fn 0, Str ''b''])),
      elements = (\<lambda>a. []), builtin = (\<lambda>key. 0)\<rparr>"

definition returns_itself :: "unit heap" where
  "returns_itself =
     \<lparr>call = (\<lambda>f ctx. Returns (Fn f)), elements = (\<lambda>a. []), builtin = (\<lambda>key. 0)\<rparr>"

definition self_containing :: "unit heap" where
  "self_containing =
     \<lparr>call = (\<lambda>f ctx. Returns Nullish), elements = (\<lambda>a. [ArrRef a]), builtin = (\<lambda>key. 0)\<rparr>"

text \<open>
  A heap whose array at every address is \<^verbatim>\<open>['btn', ['btn lg']]\<close>, and one with the
  array of \<^verbatim>\<open>const a = ['a']; a.push(() => a)\<close>, which holds a callback that returns
  the array.
\<close>

definition shared_array :: "unit heap" where
  "shared_array =
     \<lparr>call = (\<lambda>f ctx. Returns Nullish), elements = (\<lambda>a. [Str ''btn'', Arr [Str ''btn lg'']]),
      builtin = (\<lambda>key. 0)\<rparr>"

definition returned_array :: "unit heap" where
  "returned_array =
     \<lparr>call = (\<lambda>f ctx. Returns (ArrRef 0)), elements = (\<lambda>a. [Str ''a'', Fn 0]),
      builtin = (\<lambda>key. 0)\<rparr>"

text \<open>
  A heap in which every function returns an object when it is called, as the function
  \<^verbatim>\<open>Object\<close> does, which every object inherits as its \<^verbatim>\<open>constructor\<close>.
\<close>

definition object_heap :: "unit heap" where
  "object_heap =
     \<lparr>call = (\<lambda>f ctx. Returns (Unsupported True)), elements = (\<lambda>a. []),
      builtin = (\<lambda>key. 0)\<rparr>"

definition no_code :: "unit callback_code" where
  "no_code f b = Some (Inr b)"



text \<open>
  \<^verbatim>\<open>new ClassNameBuilder(config, selectedVariants, activeStates)\<close> without plugins, and the
  empty configuration \<^verbatim>\<open>{}\<close>.
\<close>

definition new_builder :: "'c arto_config \<Rightarrow> selection \<Rightarrow> string list \<Rightarrow> 'c builder" where
  "new_builder config sel active = fst (ClassNameBuilder config sel active None [])"

definition empty_config :: "unit arto_config" where
  "empty_config =
     \<lparr>className = Nullish, variants = None, states = None, rules = None,
      defaultVariants = None\<rparr>"







text \<open>
  What \<^verbatim>\<open>variantOptions[userChosenValue]\<close> finds is falsy: the value is not declared
  and no member of \<^verbatim>\<open>Object.prototype\<close> has its name, or it is declared with a falsy
  entry.
\<close>

definition lookup_falsy :: "'c heap \<Rightarrow> 'c variant_entry obj \<Rightarrow> variant_value \<Rightarrow> bool" where
  "lookup_falsy heap variantOptions v =
     (case read_property VariantClassName heap variantOptions (String v) of
        None \<Rightarrow> True
      | Some entry \<Rightarrow> \<not> variant_entry_truthy entry)"

text \<open>
  An entry without variant-level states: a class expression, or an object whose
  \<^verbatim>\<open>states\<close> is absent or nullish. Processing such an entry calls no dependency
  function.
\<close>

fun without_states :: "'c variant_entry \<Rightarrow> bool" where
  "without_states (VariantClassName cn) = True"
| "without_states (VariantConfig cn Absent) = True"
| "without_states (VariantConfig cn (Present None)) = True"
| "without_states (VariantConfig cn (Present (Some statesObj))) = False"

text \<open>A configuration that declares variants (and default values) only.\<close>

definition variants_only ::
  "'c variant_entry obj option obj \<Rightarrow> selection option \<Rightarrow> 'c arto_config" where
  "variants_only vs defaults =
     \<lparr>className = Nullish, variants = Some vs, states = None, rules = None,
      defaultVariants = defaults\<rparr>"

text \<open>
  \<^verbatim>\<open>{ size: { small: 'btn-sm', large: 'btn-lg', none: '' } }\<close>;
  \<^verbatim>\<open>{ tone: { dark: 'bg-dark' }, size: { small: 'btn-sm' } }\<close>; and the options that
  select values for variants.
\<close>

definition example_variants :: "unit variant_entry obj option obj" where
  "example_variants =
     [(''size'', Some [(''small'', VariantClassName (Str ''btn-sm'')),
                       (''large'', VariantClassName (Str ''btn-lg'')),
                       (''none'', VariantClassName (Str []))])]"


definition variants_option :: "selection \<Rightarrow> unit arto_options" where
  "variants_option sel =
     \<lparr>option_variants = Some sel, option_states = None, option_context = None\<rparr>"

text \<open>The selection that \<^verbatim>\<open>arto\<close> computes from the configuration and the options.\<close>

definition selection_of :: "'c arto_config \<Rightarrow> 'c arto_options option \<Rightarrow> selection" where
  "selection_of config options =
     safeMergeDefaults (case defaultVariants config of None \<Rightarrow> [] | Some d \<Rightarrow> d)
       (Some (case options of
          None \<Rightarrow> []
        | Some opts \<Rightarrow> (case option_variants opts of None \<Rightarrow> [] | Some u \<Rightarrow> u)))"



text \<open>
  Plugins, and callbacks, run one after the other in the order of a list.
\<close>

fun run_plugins :: "'c plugin list \<Rightarrow> 'c builder \<Rightarrow> 'c builder res" where
  "run_plugins [] b = ok b"
| "run_plugins (p # ps) b = then_res (plugin_apply p b) (run_plugins ps)"

fun run_in_order :: "'c callback_code \<Rightarrow> nat list \<Rightarrow> 'c builder \<Rightarrow> 'c builder res" where
  "run_in_order code [] b = ok b"
| "run_in_order code (c # cs) b = then_res (code c b) (run_in_order code cs)"

definition in_stage :: "plugin_stage \<Rightarrow> 'c plugin \<Rightarrow> bool" where
  "in_stage s p = (stage p = Some s)"

text \<open>
  The order that the specification puts on plugins, read off their \<^verbatim>\<open>stage\<close> and
  \<^verbatim>\<open>order\<close>: the stages rank as pre (\<^verbatim>\<open>before\<close>), main (\<^verbatim>\<open>core\<close>), post
  (\<^verbatim>\<open>after\<close>); within a stage the numeric priorities ascend. \<open>number_le\<close> is the order
  of the numbers other than \<^verbatim>\<open>NaN\<close>, which is not comparable with any number.
\<close>

fun stage_index :: "plugin_stage \<Rightarrow> nat" where
  "stage_index Before = 0"
| "stage_index Core = 1"
| "stage_index After = 2"

fun number_le :: "number \<Rightarrow> number \<Rightarrow> bool" where
  "number_le NaN y = False"
| "number_le (Finite x) (Finite y) = (x \<le> y)"
| "number_le (Finite x) PlusInfinity = True"
| "number_le (Finite x) MinusInfinity = False"
| "number_le (Finite x) NaN = False"
| "number_le PlusInfinity y = (y = PlusInfinity)"
| "number_le MinusInfinity y = (y \<noteq> NaN)"

definition in_order :: "'c plugin \<Rightarrow> 'c plugin \<Rightarrow> bool" where
  "in_order p q =
     (case (stage p, order p, stage q, order q) of
        (Some s, Some m, Some t, Some n) \<Rightarrow>
          stage_index s < stage_index t \<or> (s = t \<and> number_le m n)
      | _ \<Rightarrow> False)"

text \<open>
  A plugin that appends one class to the base bucket: one with a stage and no order, and
  one with an order and no stage.
\<close>

definition add_base_plugin :: "string \<Rightarrow> plugin_stage option \<Rightarrow> unit plugin" where
  "add_base_plugin cls st =
     \<lparr>plugin_id = cls, stage = st, order = None,
      plugin_apply = (\<lambda>b. ok (addBaseClasses [cls] b))\<rparr>"

definition add_base_at :: "string \<Rightarrow> number \<Rightarrow> unit plugin" where
  "add_base_at cls n =
     \<lparr>plugin_id = cls, stage = None, order = Some n,
      plugin_apply = (\<lambda>b. ok (addBaseClasses [cls] b))\<rparr>"

text \<open>
  The builder with no active state whose global bucket for \<^verbatim>\<open>hover\<close> holds
  \<^verbatim>\<open>bg-hover\<close>, and a plugin that fills this bucket.
\<close>

definition hover_builder :: "unit builder" where
  "hover_builder =
     (new_builder empty_config [] [])\<lparr>globalStateClassNames := [(''hover'', [''bg-hover''])]\<rparr>"

definition add_hover_plugin :: "unit plugin" where
  "add_hover_plugin =
     \<lparr>plugin_id = ''add-hover'', stage = None, order = None,
      plugin_apply = addGlobalStateClasses ''hover'' [''bg-hover'']\<rparr>"

section \<open>Properties of the logic evaluator\<close>

lemma exactly_one: "(length (filter P xs) = Suc 0) = (\<exists>!i. i < length xs \<and> P (xs ! i))"
proof -
  let ?Q = "\<lambda>i. i < length xs \<and> P (xs ! i)"
  have len: "length (filter P xs) = card {i. ?Q i}"
    by (rule length_filter_conv_card)
  have "(card {i. ?Q i} = Suc 0) = (\<exists>!i. ?Q i)"
  proof
    assume "card {i. ?Q i} = Suc 0"
    then obtain x where s: "{i. ?Q i} = {x}"
      using card_1_singleton_iff [of "{i. ?Q i}"] by auto
    have "?Q x" using s by blast
    moreover have "\<And>y. ?Q y \<Longrightarrow> y = x" using s by blast
    ultimately show "\<exists>!i. ?Q i" by (rule ex1I)
  next
    assume e: "\<exists>!i. ?Q i"
    from e obtain x where x: "?Q x" by (rule ex1E)
    have u: "y = x" if "y < length xs" "P (xs ! y)" for y using e that x by blast
    have "{i. ?Q i} = {x}"
    proof (rule set_eqI)
      fix y
      show "(y \<in> {i. ?Q i}) = (y \<in> {x})"
      proof (cases "y = x")
        case True
        then show ?thesis using x by simp
      next
        case False
        then have "\<not> ?Q y" using u [of y] by blast
        then show ?thesis using False by simp
      qed
    qed
    then show "card {i. ?Q i} = Suc 0" by simp
  qed
  then show ?thesis using len by simp
qed

text \<open>
  Claim C5. \<^verbatim>\<open>evaluateSimpleLogic(conditions, op)\<close>: with the operator omitted or
  \<^verbatim>\<open>'AND'\<close> it is true iff every entry is true (so true on the empty list); with
  \<^verbatim>\<open>'OR'\<close> iff some entry is true (false on the empty list); with \<^verbatim>\<open>'NOT'\<close> iff every
  entry is false; with \<^verbatim>\<open>'XOR'\<close> iff exactly one entry is true; with \<^verbatim>\<open>'IMPLIES'\<close> it
  is true on fewer than two entries and otherwise \<^verbatim>\<open>!conditions[0] || conditions[1]\<close>,
  whatever the later entries are.
\<close>

theorem C5_evaluateSimpleLogic:
  "evaluateSimpleLogic cs None = (\<forall>c \<in> set cs. c)
   \<and> evaluateSimpleLogic cs (Some AND) = (\<forall>c \<in> set cs. c)
   \<and> evaluateSimpleLogic [] None = True
   \<and> evaluateSimpleLogic [] (Some AND) = True
   \<and> evaluateSimpleLogic cs (Some OR) = (\<exists>c \<in> set cs. c)
   \<and> evaluateSimpleLogic [] (Some OR) = False
   \<and> evaluateSimpleLogic cs (Some NOT) = (\<forall>c \<in> set cs. \<not> c)
   \<and> evaluateSimpleLogic cs (Some XOR) = (\<exists>!i. i < length cs \<and> cs ! i)
   \<and> (length cs < 2 \<longrightarrow> evaluateSimpleLogic cs (Some IMPLIES))
   \<and> evaluateSimpleLogic (a # b # later) (Some IMPLIES) = (\<not> a \<or> b)
   \<and> evaluateSimpleLogic [True, False, True] (Some IMPLIES) = False
   \<and> evaluateSimpleLogic [True, False] (Some XOR) = True"
proof (intro conjI)
  show "evaluateSimpleLogic cs (Some XOR) = (\<exists>!i. i < length cs \<and> cs ! i)"
    using exactly_one [of "\<lambda>c. c" cs] by (simp add: evaluateSimpleLogic_def)
qed (simp_all add: evaluateSimpleLogic_def list_all_iff list_ex_iff)

theorem C5_evaluateSimpleLogic_witness:
  "evaluateSimpleLogic [True, True] None
   \<and> \<not> evaluateSimpleLogic [True, False] (Some AND)
   \<and> length [False] < 2 \<and> evaluateSimpleLogic [False] (Some IMPLIES)"
proof -
  note t = C5_evaluateSimpleLogic [of "[True, True]" True False "[]"]
  note u = C5_evaluateSimpleLogic [of "[True, False]" True False "[]"]
  note v = C5_evaluateSimpleLogic [of "[False]" True False "[]"]
  have 1: "\<forall>c \<in> set [True, True]. c" by simp
  have 2: "evaluateSimpleLogic [True, True] None" using t [THEN conjunct1] 1 by simp
  have 3: "\<not> evaluateSimpleLogic [True, False] (Some AND)"
    using u [THEN conjunct2, THEN conjunct1] by simp
  have 4: "length [False] < 2" by simp
  have 5: "evaluateSimpleLogic [False] (Some IMPLIES)"
    using v [THEN conjunct2, THEN conjunct2, THEN conjunct2, THEN conjunct2, THEN conjunct2,
             THEN conjunct2, THEN conjunct2, THEN conjunct2, THEN conjunct1] 4 by blast
  show ?thesis using 1 2 3 4 5 by blast
qed

section \<open>Properties of normalizeClassName\<close>

subsection \<open>The loop, step by step\<close>

lemma push_reversed: "fold (#) (rev items) rest = items @ rest"
  by (induction items arbitrary: rest) simp_all

lemma loop_Nil: "normalize_loop heap ctx [] result seen trace = Some (Inr (result, trace))"
  by (subst normalize_loop.simps) simp

lemma loop_Nullish:
  "normalize_loop heap ctx (Nullish # rest) result seen trace =
   normalize_loop heap ctx rest result seen trace"
  by (subst normalize_loop.simps) simp

lemma loop_Unsupported:
  "normalize_loop heap ctx (Unsupported t # rest) result seen trace =
   normalize_loop heap ctx rest result seen trace"
  by (subst normalize_loop.simps) simp

lemma loop_Str:
  "normalize_loop heap ctx (Str s # rest) result seen trace =
   normalize_loop heap ctx rest (fold set_add (fragments s) result) seen trace"
  by (subst normalize_loop.simps) simp

lemma loop_Arr:
  "normalize_loop heap ctx (Arr items # rest) result seen trace =
   normalize_loop heap ctx (items @ rest) result seen trace"
  by (subst normalize_loop.simps) (simp add: push_reversed)

lemma loop_ArrRef:
  "normalize_loop heap ctx (ArrRef a # rest) result seen trace =
   normalize_loop heap ctx (elements heap a @ rest) result seen trace"
  by (subst normalize_loop.simps) (simp add: push_reversed)

lemma loop_Fn_seen:
  "f \<in> set seen \<Longrightarrow>
   normalize_loop heap ctx (Fn f # rest) result seen trace =
   normalize_loop heap ctx rest result seen (trace @ [WarnedCyclic f])"
  by (subst normalize_loop.simps) simp

lemma loop_Fn_new:
  "f \<notin> set seen \<Longrightarrow>
   normalize_loop heap ctx (Fn f # rest) result seen trace =
   (case call heap f ctx of
      Returns resolved \<Rightarrow>
        normalize_loop heap ctx (if truthy resolved then resolved # rest else rest) result
          (seen @ [f]) (trace @ [Called f])
    | Throws t \<Rightarrow>
        Some (Inl (throwError (''Error resolving class function: '' @
          (case t of ErrorObject m \<Rightarrow> m | NonError s \<Rightarrow> s)))))"
  by (subst normalize_loop.simps) (simp add: set_add_def split: cb_result.splits thrown.splits)

lemma weight_pos: "0 < weight x"
  by (cases x) simp_all

subsection \<open>Sets as lists\<close>

lemma set_set_add: "set (set_add x xs) = insert x (set xs)"
  by (auto simp: set_add_def)

lemma fold_set_add_distinct: "distinct acc \<Longrightarrow> distinct (fold set_add xs acc)"
  by (induction xs arbitrary: acc) (simp_all add: set_add_def)

lemma fold_set_add_set: "set (fold set_add xs acc) = set xs \<union> set acc"
  by (induction xs arbitrary: acc) (auto simp: set_set_add)

lemma fold_set_add_append:
  "fold set_add xs acc = acc @ filter (\<lambda>x. x \<notin> set acc) (fold set_add xs [])"
proof (induction xs arbitrary: acc rule: rev_induct)
  case Nil
  then show ?case by simp
next
  case (snoc x xs)
  have s: "set (fold set_add xs acc) = set xs \<union> set acc" "set (fold set_add xs []) = set xs"
    by (simp_all add: fold_set_add_set)
  have "fold set_add (xs @ [x]) acc =
        set_add x (acc @ filter (\<lambda>x. x \<notin> set acc) (fold set_add xs []))"
    using snoc [of acc] by simp
  also have "\<dots> = acc @ filter (\<lambda>x. x \<notin> set acc) (set_add x (fold set_add xs []))"
    using s by (cases "x \<in> set acc"; cases "x \<in> set xs") (simp_all add: set_add_def)
  finally show ?case by simp
qed

lemma fold_set_add_first_occurrences: "fold set_add xs [] = spec_first_occurrences xs"
proof (induction xs)
  case Nil
  then show ?case by simp
next
  case (Cons x xs)
  have "fold set_add (x # xs) [] = fold set_add xs [x]" by (simp add: set_add_def)
  also have "\<dots> = [x] @ filter (\<lambda>y. y \<notin> set [x]) (fold set_add xs [])"
    by (rule fold_set_add_append)
  also have "\<dots> = x # removeAll x (spec_first_occurrences xs)"
    using Cons by (simp add: removeAll_filter_not_eq) (metis)
  finally show ?case by simp
qed

subsection \<open>Arrays held by reference\<close>

lemma those_map:
  "(those (map f xs) = Some ys) = list_all2 (\<lambda>x y. f x = Some y) xs ys"
proof (induction xs arbitrary: ys)
  case Nil
  then show ?case by auto
next
  case (Cons x xs)
  show ?case
  proof (cases "f x")
    case None
    then show ?thesis by (simp add: list_all2_Cons1)
  next
    case (Some y)
    show ?thesis
    proof (cases "those (map f xs)")
      case None
      then show ?thesis using Some Cons [of "tl ys"] by (auto simp: list_all2_Cons1)
    next
      case (Some zs)
      then have "list_all2 (\<lambda>x y. f x = Some y) xs zs" using Cons by simp
      then show ?thesis using Some \<open>f x = Some y\<close> Cons by (auto simp: list_all2_Cons1)
    qed
  qed
qed

lemma unfold_Arr:
  "(unfold n heap (Arr xs) = Some t) =
   (\<exists>ts. t = Arr ts \<and> list_all2 (\<lambda>x y. unfold n heap x = Some y) xs ts)"
  by (auto simp: those_map [symmetric])

lemma unfold_ArrRef:
  "(unfold n heap (ArrRef a) = Some t) =
   (\<exists>m ts. n = Suc m \<and> t = Arr ts
      \<and> list_all2 (\<lambda>x y. unfold m heap x = Some y) (elements heap a) ts)"
  by (cases n) (auto simp: those_map [symmetric])

lemma unfold_Suc: "unfold n heap e = Some t \<Longrightarrow> unfold (Suc n) heap e = Some t"
proof (induction n heap e arbitrary: t rule: unfold.induct)
  case (5 n heap xs)
  from 5(2) obtain ts where t: "t = Arr ts"
    and l: "list_all2 (\<lambda>x y. unfold n heap x = Some y) xs ts"
    unfolding unfold_Arr by blast
  have "list_all2 (\<lambda>x y. unfold (Suc n) heap x = Some y) xs ts"
    using l 5(1) by (rule list.rel_mono_strong)
  then show ?case unfolding unfold_Arr using t by blast
next
  case (7 n heap a)
  from 7(2) obtain ts where t: "t = Arr ts"
    and l: "list_all2 (\<lambda>x y. unfold n heap x = Some y) (elements heap a) ts"
    unfolding unfold_ArrRef by blast
  have "list_all2 (\<lambda>x y. unfold (Suc n) heap x = Some y) (elements heap a) ts"
    using l 7(1) by (rule list.rel_mono_strong)
  then show ?case unfolding unfold_ArrRef using t by blast
qed simp_all

lemma unfold_written_out: "callback_free e \<Longrightarrow> unfold n heap e = Some e"
proof (induction e)
  case (Arr xs)
  have "list_all2 (\<lambda>x y. unfold n heap x = Some y) xs xs"
    using Arr by (simp add: list_all2_same list_all_iff)
  then show ?case unfolding unfold_Arr by blast
qed simp_all

subsection \<open>Expressions without callbacks\<close>

lemma loop_callback_free:
  "list_all2 (\<lambda>x y. unfold n heap x = Some y) stack ts \<Longrightarrow> list_all callback_free ts \<Longrightarrow>
   normalize_loop heap ctx stack result seen trace =
     Some (Inr (fold set_add (concat (map spec_tokens ts)) result, trace))"
proof (induction "sum_list (map weight ts)" arbitrary: stack ts result rule: less_induct)
  case less
  show ?case
  proof (cases stack)
    case Nil
    then have "ts = []" using less.prems(1) by simp
    then show ?thesis using Nil by (simp add: loop_Nil)
  next
    case (Cons item rest)
    from less.prems(1) obtain t trest where ts: "ts = t # trest"
      and u: "unfold n heap item = Some t"
      and r: "list_all2 (\<lambda>x y. unfold n heap x = Some y) rest trest"
      unfolding Cons by (auto simp: list_all2_Cons1)
    have rest: "list_all callback_free trest" using less.prems(2) ts by simp
    have smaller: "sum_list (map weight trest) < sum_list (map weight ts)"
      using ts by (simp add: weight_pos)
    show ?thesis
    proof (cases item)
      case (Str s)
      then have t: "t = Str s" using u by simp
      from less.hyps [OF smaller r rest] show ?thesis
        unfolding Cons Str ts t by (simp add: loop_Str)
    next
      case (Arr items)
      from u obtain titems where t: "t = Arr titems"
        and l: "list_all2 (\<lambda>x y. unfold n heap x = Some y) items titems"
        unfolding Arr unfold_Arr by blast
      have m: "sum_list (map weight (titems @ trest)) < sum_list (map weight ts)"
        unfolding ts t by simp
      have a: "list_all2 (\<lambda>x y. unfold n heap x = Some y) (items @ rest) (titems @ trest)"
        using l r by (rule list_all2_appendI)
      have "list_all callback_free (titems @ trest)" using less.prems(2) unfolding ts t by simp
      from less.hyps [OF m a this] show ?thesis
        unfolding Cons Arr ts t by (simp add: loop_Arr)
    next
      case (ArrRef a)
      from u obtain m titems where n: "n = Suc m" and t: "t = Arr titems"
        and l: "list_all2 (\<lambda>x y. unfold m heap x = Some y) (elements heap a) titems"
        unfolding ArrRef unfold_ArrRef by blast
      have l': "list_all2 (\<lambda>x y. unfold n heap x = Some y) (elements heap a) titems"
        unfolding n using l by (rule list.rel_mono_strong) (rule unfold_Suc)
      have m: "sum_list (map weight (titems @ trest)) < sum_list (map weight ts)"
        unfolding ts t by simp
      have a: "list_all2 (\<lambda>x y. unfold n heap x = Some y) (elements heap a @ rest)
          (titems @ trest)"
        using l' r by (rule list_all2_appendI)
      have "list_all callback_free (titems @ trest)" using less.prems(2) unfolding ts t by simp
      from less.hyps [OF m a this] show ?thesis
        unfolding Cons ArrRef ts t by (simp add: loop_ArrRef)
    next
      case (Fn f)
      then have "t = Fn f" using u by simp
      then show ?thesis using less.prems(2) ts by simp
    next
      case Nullish
      then have t: "t = Nullish" using u by simp
      from less.hyps [OF smaller r rest] show ?thesis
        unfolding Cons Nullish ts t by (simp add: loop_Nullish)
    next
      case (Unsupported v)
      then have t: "t = Unsupported v" using u by simp
      from less.hyps [OF smaller r rest] show ?thesis
        unfolding Cons Unsupported ts t by (simp add: loop_Unsupported)
    qed
  qed
qed

lemma normalize_unfolded:
  "unfold n heap e = Some t \<Longrightarrow> callback_free t \<Longrightarrow>
   normalizeClassName heap e ctx = Some (Inr (spec_first_occurrences (spec_tokens t)))"
  using loop_callback_free [of n heap "[e]" "[t]" ctx "[]" "[]" "[]"]
  by (simp add: normalizeClassName_def normalize_run_def fold_set_add_first_occurrences)

lemma normalize_callback_free:
  "callback_free e \<Longrightarrow>
   normalizeClassName heap e ctx = Some (Inr (spec_first_occurrences (spec_tokens e)))"
  using normalize_unfolded [OF unfold_written_out [of e 0 heap], of ctx] by simp

lemma normalize_Str:
  "normalizeClassName heap (Str s) ctx = Some (Inr (spec_first_occurrences (fragments s)))"
  using normalize_callback_free [of "Str s" heap ctx] by simp

subsection \<open>Fragments of a string\<close>

lemma split_ws_token: "list_all (\<lambda>c. \<not> is_whitespace c) w \<Longrightarrow> split_ws cur (w @ s) = split_ws (cur @ w) s"
  by (induction w arbitrary: cur) simp_all

lemma fragments_Nil: "fragments [] = []"
  by (simp add: fragments_def)

lemma fragments_dropWhile: "fragments (dropWhile is_whitespace s) = fragments s"
proof (induction s)
  case Nil
  then show ?case by simp
next
  case (Cons c s)
  then show ?case by (simp add: fragments_def)
qed

lemma fragments_whitespace: "is_whitespace c \<Longrightarrow> fragments (c # s) = fragments s"
  using fragments_dropWhile [of s] by (simp add: fragments_def)

lemma fragments_token:
  assumes "single_token w" and "s = [] \<or> is_whitespace (hd s)"
  shows "fragments (w @ s) = w # fragments s"
proof -
  have w: "list_all (\<lambda>c. \<not> is_whitespace c) w" "w \<noteq> []"
    using assms(1) by (simp_all add: single_token_def)
  have e: "split_ws [] (w @ s) = split_ws w s" using split_ws_token [OF w(1), of "[]" s] by simp
  show ?thesis
  proof (cases s)
    case Nil
    then show ?thesis using e w(2) by (simp add: fragments_def)
  next
    case (Cons c s')
    then have c: "is_whitespace c" using assms(2) by simp
    have "fragments (w @ s) = w # fragments (dropWhile is_whitespace s')"
      using e w(2) Cons c by (simp add: fragments_def)
    also have "\<dots> = w # fragments (c # s')"
      using fragments_whitespace [OF c, of s'] fragments_dropWhile [of s'] by simp
    finally show ?thesis using Cons by simp
  qed
qed

lemma fragments_single: "single_token w \<Longrightarrow> fragments w = [w]"
  using fragments_token [of w "[]"] by (simp add: fragments_Nil)

lemma first_occurrences_distinct: "distinct (spec_first_occurrences xs)"
  by (induction xs) (simp_all add: distinct_removeAll)

lemma first_occurrences_set: "set (spec_first_occurrences xs) = set xs"
  by (induction xs) auto

lemma first_occurrences_id: "distinct xs \<Longrightarrow> spec_first_occurrences xs = xs"
  by (induction xs) (simp_all add: first_occurrences_set)

subsection \<open>Termination and the calls of callbacks\<close>

lemma called_append: "called (xs @ ys) = called xs @ called ys"
  by (induction xs rule: called.induct) simp_all

lemma loop_terminates_inner:
  assumes closed: "closed_under n heap ctx F"
    and outer: "\<And>stack' ts' result' seen' trace'.
        card (F - set seen') < card (F - set seen) \<Longrightarrow>
        list_all2 (\<lambda>x y. unfold n heap x = Some y) stack' ts' \<Longrightarrow>
        \<forall>x \<in> set ts'. refs x \<subseteq> F \<Longrightarrow>
        \<exists>y. normalize_loop heap ctx stack' result' seen' trace' = Some y"
    and fin: "finite F"
  shows "list_all2 (\<lambda>x y. unfold n heap x = Some y) stack ts \<Longrightarrow>
         \<forall>x \<in> set ts. refs x \<subseteq> F \<Longrightarrow>
         \<exists>y. normalize_loop heap ctx stack result seen trace = Some y"
proof (induction "sum_list (map weight ts)" arbitrary: stack ts result trace rule: less_induct)
  case less
  show ?case
  proof (cases stack)
    case Nil
    then show ?thesis by (simp add: loop_Nil)
  next
    case (Cons item rest)
    from less.prems(1) obtain t trest where ts: "ts = t # trest"
      and u: "unfold n heap item = Some t"
      and r: "list_all2 (\<lambda>x y. unfold n heap x = Some y) rest trest"
      unfolding Cons by (auto simp: list_all2_Cons1)
    have rest: "\<forall>x \<in> set trest. refs x \<subseteq> F" using less.prems(2) ts by simp
    have smaller: "sum_list (map weight trest) < sum_list (map weight ts)"
      using ts by (simp add: weight_pos)
    show ?thesis
    proof (cases item)
      case (Str s)
      from less.hyps [OF smaller r rest] show ?thesis unfolding Cons Str by (simp add: loop_Str)
    next
      case (Arr items)
      from u obtain titems where t: "t = Arr titems"
        and l: "list_all2 (\<lambda>x y. unfold n heap x = Some y) items titems"
        unfolding Arr unfold_Arr by blast
      have m: "sum_list (map weight (titems @ trest)) < sum_list (map weight ts)"
        unfolding ts t by simp
      have a: "list_all2 (\<lambda>x y. unfold n heap x = Some y) (items @ rest) (titems @ trest)"
        using l r by (rule list_all2_appendI)
      have "\<forall>x \<in> set (titems @ trest). refs x \<subseteq> F"
        using less.prems(2) unfolding ts t by auto
      from less.hyps [OF m a this] show ?thesis unfolding Cons Arr by (simp add: loop_Arr)
    next
      case (ArrRef a)
      from u obtain m titems where n: "n = Suc m" and t: "t = Arr titems"
        and l: "list_all2 (\<lambda>x y. unfold m heap x = Some y) (elements heap a) titems"
        unfolding ArrRef unfold_ArrRef by blast
      have l': "list_all2 (\<lambda>x y. unfold n heap x = Some y) (elements heap a) titems"
        unfolding n using l by (rule list.rel_mono_strong) (rule unfold_Suc)
      have m: "sum_list (map weight (titems @ trest)) < sum_list (map weight ts)"
        unfolding ts t by simp
      have a: "list_all2 (\<lambda>x y. unfold n heap x = Some y) (elements heap a @ rest)
          (titems @ trest)"
        using l' r by (rule list_all2_appendI)
      have "\<forall>x \<in> set (titems @ trest). refs x \<subseteq> F"
        using less.prems(2) unfolding ts t by auto
      from less.hyps [OF m a this] show ?thesis unfolding Cons ArrRef by (simp add: loop_ArrRef)
    next
      case Nullish
      from less.hyps [OF smaller r rest] show ?thesis
        unfolding Cons Nullish by (simp add: loop_Nullish)
    next
      case (Unsupported v)
      from less.hyps [OF smaller r rest] show ?thesis
        unfolding Cons Unsupported by (simp add: loop_Unsupported)
    next
      case (Fn f)
      have "t = Fn f" using u Fn by simp
      then have fF: "f \<in> F" using less.prems(2) ts by simp
      show ?thesis
      proof (cases "f \<in> set seen")
        case True
        from less.hyps [OF smaller r rest] show ?thesis unfolding Cons Fn using True
          by (simp add: loop_Fn_seen)
      next
        case False
        have c: "card (F - set (seen @ [f])) < card (F - set seen)"
        proof (rule psubset_card_mono)
          show "finite (F - set seen)" using fin by simp
          show "F - set (seen @ [f]) \<subset> F - set seen" using fF False by auto
        qed
        show ?thesis
        proof (cases "call heap f ctx")
          case (Throws e)
          then show ?thesis unfolding Cons Fn using False by (simp add: loop_Fn_new)
        next
          case (Returns v)
          have "case call heap f ctx of
                  Returns v \<Rightarrow>
                    (case unfold n heap v of None \<Rightarrow> False | Some t \<Rightarrow> refs t \<subseteq> F)
                | Throws e \<Rightarrow> True"
            using closed fF unfolding closed_under_def by (rule bspec)
          then obtain tv where tv: "unfold n heap v = Some tv" "refs tv \<subseteq> F"
            unfolding Returns by (cases "unfold n heap v") simp_all
          have "\<exists>y. normalize_loop heap ctx (if truthy v then v # rest else rest) result
                  (seen @ [f]) (trace @ [Called f]) = Some y"
          proof (cases "truthy v")
            case True
            have l: "list_all2 (\<lambda>x y. unfold n heap x = Some y) (v # rest) (tv # trest)"
              using tv(1) r by simp
            have "\<forall>x \<in> set (tv # trest). refs x \<subseteq> F" using tv(2) rest by simp
            from outer [OF c l this] show ?thesis using True by simp
          next
            case False
            then show ?thesis using outer [OF c r rest] by simp
          qed
          then show ?thesis unfolding Cons Fn using False Returns by (simp add: loop_Fn_new)
        qed
      qed
    qed
  qed
qed

lemma loop_terminates:
  assumes closed: "closed_under n heap ctx F" and fin: "finite F"
  shows "list_all2 (\<lambda>x y. unfold n heap x = Some y) stack ts \<Longrightarrow>
         \<forall>x \<in> set ts. refs x \<subseteq> F \<Longrightarrow>
         \<exists>y. normalize_loop heap ctx stack result seen trace = Some y"
proof (induction "card (F - set seen)" arbitrary: stack ts result seen trace rule: less_induct)
  case less
  show ?case
  proof (rule loop_terminates_inner [OF closed _ fin less.prems])
    fix stack' ts' result' seen' trace'
    assume "card (F - set seen') < card (F - set seen)"
      "list_all2 (\<lambda>x y. unfold n heap x = Some y) stack' ts'" "\<forall>x \<in> set ts'. refs x \<subseteq> F"
    then show "\<exists>y. normalize_loop heap ctx stack' result' seen' trace' = Some y"
      by (rule less.hyps)
  qed
qed

lemma loop_invariant:
  "normalize_loop heap ctx stack result seen trace = Some y \<Longrightarrow>
   called trace = seen \<longrightarrow> distinct seen \<longrightarrow> distinct result \<longrightarrow>
   (case y of Inl e \<Rightarrow> True
    | Inr (toks, trace') \<Rightarrow> distinct (called trace') \<and> distinct toks)"
proof (induction heap ctx stack result seen trace y
    rule: normalize_loop.raw_induct [rotated 1, consumes 1])
  case (1 loop heap ctx stack result seen trace y)
  show ?case
  proof (cases stack)
    case Nil
    have "y = Inr (result, trace)" using 1(2) unfolding Nil by simp
    then show ?thesis by simp
  next
    case (Cons item rest)
    show ?thesis
    proof (cases item)
      case (Str s)
      have "loop heap ctx rest (fold set_add (fragments s) result) seen trace = Some y"
        using 1(2) unfolding Cons Str by simp
      from 1(1) [OF this] show ?thesis by (blast intro: fold_set_add_distinct)
    next
      case (Arr items)
      have "loop heap ctx (items @ rest) result seen trace = Some y"
        using 1(2) unfolding Cons Arr by (simp add: push_reversed)
      from 1(1) [OF this] show ?thesis by blast
    next
      case (ArrRef a)
      have "loop heap ctx (elements heap a @ rest) result seen trace = Some y"
        using 1(2) unfolding Cons ArrRef by (simp add: push_reversed)
      from 1(1) [OF this] show ?thesis by blast
    next
      case Nullish
      have "loop heap ctx rest result seen trace = Some y" using 1(2) unfolding Cons Nullish by simp
      from 1(1) [OF this] show ?thesis by blast
    next
      case (Unsupported t)
      have "loop heap ctx rest result seen trace = Some y"
        using 1(2) unfolding Cons Unsupported by simp
      from 1(1) [OF this] show ?thesis by blast
    next
      case (Fn f)
      show ?thesis
      proof (cases "f \<in> set seen")
        case True
        have "loop heap ctx rest result seen (trace @ [WarnedCyclic f]) = Some y"
          using 1(2) True unfolding Cons Fn by simp
        from 1(1) [OF this] have
          "called (trace @ [WarnedCyclic f]) = seen \<longrightarrow> distinct seen \<longrightarrow> distinct result \<longrightarrow>
           (case y of Inl e \<Rightarrow> True
            | Inr (toks, trace') \<Rightarrow> distinct (called trace') \<and> distinct toks)" .
        moreover have "called (trace @ [WarnedCyclic f]) = called trace" by (simp add: called_append)
        ultimately show ?thesis by simp
      next
        case False
        show ?thesis
        proof (cases "call heap f ctx")
          case (Throws t)
          have "\<exists>e. y = Inl e"
            using 1(2) False Throws unfolding Cons Fn by (cases t) auto
          then show ?thesis by auto
        next
          case (Returns r)
          have "loop heap ctx (if truthy r then r # rest else rest) result (seen @ [f])
                  (trace @ [Called f]) = Some y"
            using 1(2) False Returns unfolding Cons Fn
            by (cases "truthy r") (simp_all add: set_add_def)
          from 1(1) [OF this] have
            "called (trace @ [Called f]) = seen @ [f] \<longrightarrow> distinct (seen @ [f]) \<longrightarrow>
             distinct result \<longrightarrow>
             (case y of Inl e \<Rightarrow> True
              | Inr (toks, trace') \<Rightarrow> distinct (called trace') \<and> distinct toks)" .
          moreover have "called (trace @ [Called f]) = called trace @ [f]"
            by (simp add: called_append)
          moreover have "distinct seen \<Longrightarrow> distinct (seen @ [f])" using False by simp
          ultimately show ?thesis by simp
        qed
      qed
    qed
  qed
qed

lemma run_invariant:
  "normalize_run heap e ctx = Some (Inr (toks, trace)) \<Longrightarrow> distinct (called trace) \<and> distinct toks"
  using loop_invariant [of heap ctx "[e]" "[]" "[]" "[]" "Inr (toks, trace)"]
  by (simp add: normalize_run_def)

lemma self_returning:
  "call heap f ctx = Returns (Fn f) \<Longrightarrow>
   normalize_run heap (Fn f) ctx = Some (Inr ([], [Called f, WarnedCyclic f]))"
  by (simp add: normalize_run_def loop_Fn_new loop_Fn_seen loop_Nil)

lemma self_containing_never_returns:
  "normalize_loop heap ctx stack result seen trace = Some y \<Longrightarrow>
   \<not> (heap = self_containing \<and> (\<exists>a. stack = [ArrRef a]))"
proof (induction heap ctx stack result seen trace y
    rule: normalize_loop.raw_induct [rotated 1, consumes 1])
  case (1 loop heap ctx stack result seen trace y)
  show ?case
  proof
    assume a: "heap = self_containing \<and> (\<exists>a. stack = [ArrRef a])"
    then obtain a where s: "stack = [ArrRef a]" by blast
    have e: "elements heap a = [ArrRef a]" using a by (simp add: self_containing_def)
    have "loop heap ctx [ArrRef a] result seen trace = Some y"
      using 1(2) unfolding s by (simp add: e)
    from 1(1) [OF this] have "\<not> (heap = self_containing \<and> (\<exists>a'. [ArrRef a] = [ArrRef a']))" .
    then show False using a by blast
  qed
qed

lemma normalize_distinct:
  "normalizeClassName heap e ctx = Some (Inr toks) \<Longrightarrow> distinct toks"
proof -
  assume a: "normalizeClassName heap e ctx = Some (Inr toks)"
  then obtain trace where "normalize_run heap e ctx = Some (Inr (toks, trace))"
    by (auto simp: normalizeClassName_def split: option.splits sum.splits)
  then show ?thesis using run_invariant by blast
qed

lemma normalize_terminates:
  assumes "finite F" "unfold n heap e = Some t" "refs t \<subseteq> F" "closed_under n heap ctx F"
  shows "\<exists>r. normalizeClassName heap e ctx = Some r"
proof -
  have l: "list_all2 (\<lambda>x y. unfold n heap x = Some y) [e] [t]" using assms(2) by simp
  have "\<forall>x \<in> set [t]. refs x \<subseteq> F" using assms(3) by simp
  from loop_terminates [OF assms(4) assms(1) l this, of "[]" "[]" "[]"]
  obtain y where "normalize_run heap e ctx = Some y" unfolding normalize_run_def by blast
  then show ?thesis by (cases y) (auto simp: normalizeClassName_def)
qed

text \<open>
  Claim C3. \<^verbatim>\<open>normalizeClassName\<close> splits every string on runs of whitespace and
  discards the empty fragments (the three equations of \<open>fragments\<close>: nothing in the
  empty string, a leading whitespace character contributes nothing, a token that ends
  the string or is followed by whitespace is the first fragment); on an expression without
  callbacks it returns the tokens met depth-first from left to right, each at its first
  occurrence only, which is a list without repetition that has the same tokens, and the
  same holds when arrays of the expression are held by reference, of the expression with
  these arrays written out; and whatever the expression, a returned token list has no
  repetition. So for distinct single tokens \<open>a, b, c, d\<close> the expression
  \<^verbatim>\<open>[a, [b, c], d]\<close> gives \<^verbatim>\<open>[a, b, c, d]\<close>, and \<^verbatim>\<open>['x', 'x', 'y']\<close> gives
  \<^verbatim>\<open>['x', 'y']\<close>.
\<close>

theorem C3_normalize_order_dedup:
  "fragments [] = []
   \<and> (is_whitespace ch \<longrightarrow> fragments (ch # s) = fragments s)
   \<and> (single_token w \<and> (s = [] \<or> is_whitespace (hd s)) \<longrightarrow> fragments (w @ s) = w # fragments s)
   \<and> (callback_free e \<longrightarrow>
        normalizeClassName heap e ctx = Some (Inr (spec_first_occurrences (spec_tokens e))))
   \<and> (unfold n heap e = Some t \<and> callback_free t \<longrightarrow>
        normalizeClassName heap e ctx = Some (Inr (spec_first_occurrences (spec_tokens t))))
   \<and> (normalizeClassName heap e ctx = Some (Inr toks) \<longrightarrow> distinct toks)
   \<and> distinct (spec_first_occurrences (spec_tokens e))
   \<and> set (spec_first_occurrences (spec_tokens e)) = set (spec_tokens e)
   \<and> (single_token a \<and> single_token b \<and> single_token c \<and> single_token d
        \<and> distinct [a, b, c, d] \<longrightarrow>
        normalizeClassName heap (Arr [Str a, Arr [Str b, Str c], Str d]) ctx
          = Some (Inr [a, b, c, d]))
   \<and> normalizeClassName heap (Arr [Str ''x'', Str ''x'', Str ''y'']) ctx
        = Some (Inr [''x'', ''y''])"
proof (intro conjI impI)
  show "fragments [] = []" by (rule fragments_Nil)
next
  assume "is_whitespace ch"
  then show "fragments (ch # s) = fragments s" by (rule fragments_whitespace)
next
  assume "single_token w \<and> (s = [] \<or> is_whitespace (hd s))"
  then show "fragments (w @ s) = w # fragments s" using fragments_token [of w s] by blast
next
  assume "callback_free e"
  then show "normalizeClassName heap e ctx = Some (Inr (spec_first_occurrences (spec_tokens e)))"
    by (rule normalize_callback_free)
next
  assume "unfold n heap e = Some t \<and> callback_free t"
  then show "normalizeClassName heap e ctx = Some (Inr (spec_first_occurrences (spec_tokens t)))"
    using normalize_unfolded [of n heap e t ctx] by blast
next
  assume "normalizeClassName heap e ctx = Some (Inr toks)"
  then show "distinct toks" by (rule normalize_distinct)
next
  show "distinct (spec_first_occurrences (spec_tokens e))" by (rule first_occurrences_distinct)
next
  show "set (spec_first_occurrences (spec_tokens e)) = set (spec_tokens e)"
    by (rule first_occurrences_set)
next
  assume h: "single_token a \<and> single_token b \<and> single_token c \<and> single_token d
    \<and> distinct [a, b, c, d]"
  have t: "spec_tokens (Arr [Str a, Arr [Str b, Str c], Str d]) = [a, b, c, d]"
    using h by (simp add: fragments_single)
  have "callback_free (Arr [Str a, Arr [Str b, Str c], Str d])" by simp
  from normalize_callback_free [OF this, of heap ctx]
  show "normalizeClassName heap (Arr [Str a, Arr [Str b, Str c], Str d]) ctx
          = Some (Inr [a, b, c, d])"
    using h first_occurrences_id [of "[a, b, c, d]"] unfolding t by simp
next
  have x: "single_token ''x''" and y: "single_token ''y''"
    by (simp_all add: single_token_def is_whitespace_def)
  have t: "spec_tokens (Arr [Str ''x'', Str ''x'', Str ''y'']) = [''x'', ''x'', ''y'']"
    by (simp add: fragments_single [OF x] fragments_single [OF y])
  have "callback_free (Arr [Str ''x'', Str ''x'', Str ''y''])" by simp
  from normalize_callback_free [OF this, of heap ctx]
  show "normalizeClassName heap (Arr [Str ''x'', Str ''x'', Str ''y'']) ctx
        = Some (Inr [''x'', ''y''])"
    unfolding t by simp
qed

theorem C3_normalize_order_dedup_witness:
  "is_whitespace CHR '' '' \<and> fragments '' foo'' = fragments ''foo''
   \<and> single_token ''foo'' \<and> fragments ''foo  bar '' = ''foo'' # fragments ''  bar ''
   \<and> callback_free (Arr [Str ''btn  btn-primary'', Arr [Nullish, Str ''btn'']])
   \<and> normalizeClassName no_callbacks
        (Arr [Str ''btn  btn-primary'', Arr [Nullish, Str ''btn'']]) None
       = Some (Inr [''btn'', ''btn-primary''])
   \<and> unfold 1 shared_array (ArrRef 0) = Some (Arr [Str ''btn'', Arr [Str ''btn lg'']])
   \<and> normalizeClassName shared_array (ArrRef 0) None = Some (Inr [''btn'', ''lg''])
   \<and> normalizeClassName no_callbacks
        (Arr [Str ''a'', Arr [Str ''b'', Str ''c''], Str ''d'']) None
       = Some (Inr [''a'', ''b'', ''c'', ''d''])"
proof -
  let ?e = "Arr [Str ''btn  btn-primary'', Arr [Nullish, Str ''btn'']]"
  note t = C3_normalize_order_dedup [of "CHR '' ''" "''foo''" "''foo''" ?e no_callbacks
      None 0 ?e "[]" "''a''" "''b''" "''c''" "''d''"]
  note u = C3_normalize_order_dedup [of "CHR '' ''" "''  bar ''" "''foo''" "ArrRef 0"
      shared_array None 1 "Arr [Str ''btn'', Arr [Str ''btn lg'']]" "[]"
      "''a''" "''b''" "''c''" "''d''"]
  have ws: "is_whitespace CHR '' ''" by (simp add: is_whitespace_def)
  have foo: "single_token ''foo''" by (simp add: single_token_def is_whitespace_def)
  have 1: "fragments '' foo'' = fragments ''foo''"
    using t [THEN conjunct2, THEN conjunct1] ws by blast
  have 2: "fragments ''foo  bar '' = ''foo'' # fragments ''  bar ''"
    using u [THEN conjunct2, THEN conjunct2, THEN conjunct1] foo ws by simp
  have cf: "callback_free ?e" by simp
  have fr: "fragments ''btn  btn-primary'' = [''btn'', ''btn-primary'']"
    "fragments ''btn'' = [''btn'']" "fragments ''btn lg'' = [''btn'', ''lg'']"
    by (simp_all add: fragments_def is_whitespace_def)
  have 3: "normalizeClassName no_callbacks ?e None = Some (Inr [''btn'', ''btn-primary''])"
    using t [THEN conjunct2, THEN conjunct2, THEN conjunct2, THEN conjunct1] cf
    by (simp add: fr)
  have un: "unfold 1 shared_array (ArrRef 0) = Some (Arr [Str ''btn'', Arr [Str ''btn lg'']])"
    by (simp add: shared_array_def)
  have 4: "normalizeClassName shared_array (ArrRef 0) None = Some (Inr [''btn'', ''lg''])"
    using u [THEN conjunct2, THEN conjunct2, THEN conjunct2, THEN conjunct2, THEN conjunct1] un
    by (simp add: fr)
  have tok: "single_token ''a''" "single_token ''b''" "single_token ''c''" "single_token ''d''"
    by (simp_all add: single_token_def is_whitespace_def)
  have 5: "normalizeClassName no_callbacks
        (Arr [Str ''a'', Arr [Str ''b'', Str ''c''], Str ''d'']) None
       = Some (Inr [''a'', ''b'', ''c'', ''d''])"
    using t [THEN conjunct2, THEN conjunct2, THEN conjunct2, THEN conjunct2, THEN conjunct2,
             THEN conjunct2, THEN conjunct2, THEN conjunct2, THEN conjunct1] tok
    by simp
  show ?thesis using ws foo cf 1 2 3 un 4 5 by blast
qed

text \<open>
  Claim C4, as amended. \<^verbatim>\<open>normalizeClassName\<close> returns (a token list or the typed
  error) on every input in which no array contains itself, directly or through other
  arrays, so that the expression and the results of its callbacks can be written out with
  their arrays' items, and in which the callbacks, followed through their results, reach
  only finitely many callback references; this covers callbacks that return themselves
  or one another cyclically. Within one top-level call no callback reference is called
  twice; a reference met again is skipped with a warning and the loop goes on with the
  rest of the stack; and a callback \<open>f\<close> that returns \<open>f\<close> normalizes to the empty list.
\<close>

theorem C4_normalize_terminates:
  "(finite F \<and> unfold n heap e = Some t \<and> refs t \<subseteq> F \<and> closed_under n heap ctx F \<longrightarrow>
      (\<exists>r. normalizeClassName heap e ctx = Some r))
   \<and> (normalize_run heap e ctx = Some (Inr (toks, trace)) \<longrightarrow> distinct (called trace))
   \<and> (f \<in> set seen \<longrightarrow>
        normalize_loop heap ctx (Fn f # rest) result seen trace0 =
        normalize_loop heap ctx rest result seen (trace0 @ [WarnedCyclic f]))
   \<and> (call heap f ctx = Returns (Fn f) \<longrightarrow>
        normalizeClassName heap (Fn f) ctx = Some (Inr [])
        \<and> normalize_run heap (Fn f) ctx = Some (Inr ([], [Called f, WarnedCyclic f])))"
proof (intro conjI impI)
  assume "finite F \<and> unfold n heap e = Some t \<and> refs t \<subseteq> F \<and> closed_under n heap ctx F"
  then show "\<exists>r. normalizeClassName heap e ctx = Some r"
    using normalize_terminates [of F n heap e t ctx] by blast
next
  assume "normalize_run heap e ctx = Some (Inr (toks, trace))"
  then show "distinct (called trace)" using run_invariant by blast
next
  assume "f \<in> set seen"
  then show "normalize_loop heap ctx (Fn f # rest) result seen trace0 =
        normalize_loop heap ctx rest result seen (trace0 @ [WarnedCyclic f])"
    by (rule loop_Fn_seen)
next
  assume a: "call heap f ctx = Returns (Fn f)"
  from self_returning [of heap f ctx] a
  show "normalize_run heap (Fn f) ctx = Some (Inr ([], [Called f, WarnedCyclic f]))" .
  then show "normalizeClassName heap (Fn f) ctx = Some (Inr [])"
    by (simp add: normalizeClassName_def)
qed

lemma cyclic_run:
  "normalize_run cyclic_callbacks (Fn 0) None
     = Some (Inr ([''a'', ''b''], [Called 0, Called 1, WarnedCyclic 0]))"
proof -
  have fa: "fragments ''a'' = [''a'']" and fb: "fragments ''b'' = [''b'']"
    by (simp_all add: fragments_def is_whitespace_def)
  have c0: "call cyclic_callbacks 0 None = Returns (Arr [Str ''a'', Fn 1])"
    and c1: "call cyclic_callbacks (Suc 0) None = Returns (Arr [Fn 0, Str ''b''])"
    by (simp_all add: cyclic_callbacks_def)
  show ?thesis
    by (simp add: normalize_run_def loop_Fn_new loop_Fn_seen loop_Nil loop_Arr loop_Str
        c0 c1 fa fb set_add_def)
qed

lemma returned_array_run:
  "normalize_run returned_array (ArrRef 0) None
     = Some (Inr ([''a''], [Called 0, WarnedCyclic 0]))"
proof -
  have fa: "fragments ''a'' = [''a'']" by (simp add: fragments_def is_whitespace_def)
  have c0: "call returned_array 0 None = Returns (ArrRef 0)"
    and e0: "elements returned_array 0 = [Str ''a'', Fn 0]"
    by (simp_all add: returned_array_def)
  show ?thesis
    by (simp add: normalize_run_def loop_Fn_new loop_Fn_seen loop_Nil loop_ArrRef loop_Str
        c0 e0 fa set_add_def)
qed

theorem C4_normalize_terminates_witness:
  "finite {0, 1 :: nat} \<and> unfold 0 cyclic_callbacks (Fn 0) = Some (Fn 0)
   \<and> refs (Fn 0) \<subseteq> {0, 1} \<and> closed_under 0 cyclic_callbacks None {0, 1}
   \<and> (\<exists>r. normalizeClassName cyclic_callbacks (Fn 0) None = Some r)
   \<and> normalize_run cyclic_callbacks (Fn 0) None
       = Some (Inr ([''a'', ''b''], [Called 0, Called 1, WarnedCyclic 0]))
   \<and> distinct (called [Called 0, Called 1, WarnedCyclic 0])
   \<and> unfold 1 returned_array (ArrRef 0) = Some (Arr [Str ''a'', Fn 0])
   \<and> closed_under 1 returned_array None {0}
   \<and> (\<exists>r. normalizeClassName returned_array (ArrRef 0) None = Some r)
   \<and> normalize_run returned_array (ArrRef 0) None
       = Some (Inr ([''a''], [Called 0, WarnedCyclic 0]))
   \<and> normalize_loop cyclic_callbacks None [Fn 0] [] [0] [] = Some (Inr ([], [WarnedCyclic 0]))
   \<and> call returns_itself 0 None = Returns (Fn 0)
   \<and> normalizeClassName returns_itself (Fn 0) None = Some (Inr [])"
proof -
  note s = C4_normalize_terminates [where heap = cyclic_callbacks and ctx = None and f = 0
      and seen = "[0]" and rest = "[]" and result = "[]" and ?trace0.0 = "[]"]
  note r = C4_normalize_terminates [where heap = returns_itself and ctx = None and f = 0]
  note t = C4_normalize_terminates [of "{0, 1}" 0 cyclic_callbacks "Fn 0" "Fn 0" None
      "[''a'', ''b'']" "[Called 0, Called 1, WarnedCyclic 0]" 0 "[]" "[]" "[]" "[]"]
  note u = C4_normalize_terminates [of "{0}" 1 returned_array "ArrRef 0"
      "Arr [Str ''a'', Fn 0]" None "[''a'']" "[Called 0, WarnedCyclic 0]" 0 "[]" "[]" "[]" "[]"]
  have 1: "finite {0, 1 :: nat}" by simp
  have 2: "unfold 0 cyclic_callbacks (Fn 0) = Some (Fn 0)" "refs (Fn 0) \<subseteq> {0, 1}" by simp_all
  have 3: "closed_under 0 cyclic_callbacks None {0, 1}"
    by (simp add: closed_under_def cyclic_callbacks_def)
  have 4: "\<exists>r. normalizeClassName cyclic_callbacks (Fn 0) None = Some r"
    using t [THEN conjunct1] 1 2 3 by blast
  have 5: "distinct (called [Called 0, Called 1, WarnedCyclic 0])"
    using t [THEN conjunct2, THEN conjunct1] cyclic_run by blast
  have 6: "unfold 1 returned_array (ArrRef 0) = Some (Arr [Str ''a'', Fn 0])"
    by (simp add: returned_array_def)
  have 7: "closed_under 1 returned_array None {0}"
    by (simp add: closed_under_def returned_array_def)
  have 8: "\<exists>r. normalizeClassName returned_array (ArrRef 0) None = Some r"
    using u [THEN conjunct1] 6 7 by simp
  have 9: "normalize_loop cyclic_callbacks None [Fn 0] [] [0] [] = Some (Inr ([], [WarnedCyclic 0]))"
    using s [THEN conjunct2, THEN conjunct2, THEN conjunct1] by (simp add: loop_Nil)
  have 10: "call returns_itself 0 None = Returns (Fn 0)" by (simp add: returns_itself_def)
  have 11: "normalizeClassName returns_itself (Fn 0) None = Some (Inr [])"
    using r [THEN conjunct2, THEN conjunct2, THEN conjunct2] 10 by blast
  show ?thesis using 1 2 3 4 5 6 7 8 9 10 11 cyclic_run returned_array_run by blast
qed

text \<open>
  Claim C4 as it is written (``terminates on every input'') does not hold: the seen-set
  holds functions only, so on the array of \<^verbatim>\<open>const a = []; a.push(a)\<close> the loop pushes
  the array again each time it pops it, and never ends.
\<close>

theorem C4_self_containing_array_counterexample:
  "elements self_containing 0 = [ArrRef 0]
   \<and> normalizeClassName self_containing (ArrRef 0) None = None"
proof -
  have "normalize_run self_containing (ArrRef 0) None = None"
  proof (cases "normalize_run self_containing (ArrRef 0) None")
    case None
    then show ?thesis .
  next
    case (Some y)
    then have "normalize_loop self_containing None [ArrRef 0] [] [] [] = Some y"
      by (simp add: normalize_run_def)
    from self_containing_never_returns [of self_containing None "[ArrRef 0]" "[]" "[]" "[]" y]
      this
    show ?thesis by blast
  qed
  then show ?thesis by (simp add: normalizeClassName_def self_containing_def)
qed

section \<open>Properties of the selection and of the active states\<close>

lemma obj_get_obj_set: "obj_get (obj_set obj k v) k' = (if k' = k then Some v else obj_get obj k')"
  by (induction obj) (auto simp: obj_get_def)

lemma selected_absent: "selected u k = Some v \<Longrightarrow> k \<in> set (map fst u)"
proof -
  assume "selected u k = Some v"
  then have "map_of u k \<noteq> None"
    by (auto simp: selected_def obj_get_def split: option.splits)
  then show ?thesis by (simp add: map_of_eq_None_iff)
qed

lemma merge_fold:
  "obj_get
     (fold (\<lambda>key final. case selected u key of None \<Rightarrow> final | Some v \<Rightarrow> obj_set final key (Some v))
        keys acc) k =
   (case selected u k of
      None \<Rightarrow> obj_get acc k
    | Some v \<Rightarrow> if k \<in> set keys then Some (Some v) else obj_get acc k)"
proof (induction keys arbitrary: acc)
  case Nil
  then show ?case by (simp split: option.splits)
next
  case (Cons key keys)
  show ?case
  proof (cases "selected u key")
    case None
    then show ?thesis using Cons [of acc] by (auto split: option.splits)
  next
    case (Some w)
    then show ?thesis using Cons [of "obj_set acc key (Some w)"]
      by (auto simp: obj_get_obj_set split: option.splits)
  qed
qed

lemma safeMergeDefaults_get:
  "obj_get (safeMergeDefaults defaults (Some u)) k =
   (case selected u k of None \<Rightarrow> obj_get defaults k | Some v \<Rightarrow> Some (Some v))"
proof (cases "selected u k")
  case None
  then show ?thesis by (simp add: safeMergeDefaults_def merge_fold)
next
  case (Some v)
  then show ?thesis using selected_absent [OF Some]
    by (simp add: safeMergeDefaults_def merge_fold)
qed

lemma collectTrueKeys_set:
  "set (collectTrueKeys (Some r)) = {k. (k, Boolean True) \<in> set r}"
  by (force simp: collectTrueKeys_def fold_set_add_set)

lemma collectTrueKeys_distinct: "distinct (collectTrueKeys r)"
  by (cases r) (simp_all add: collectTrueKeys_def fold_set_add_distinct)

text \<open>
  Claim C8. The selection given to the builder is \<^verbatim>\<open>safeMergeDefaults\<close> of the
  configured defaults and the caller's variants: a key whose caller value is neither
  \<^verbatim>\<open>null\<close> nor \<^verbatim>\<open>undefined\<close> has that value, every other key has what the defaults
  have. The active states given to the builder are \<^verbatim>\<open>collectTrueKeys\<close> of the caller's
  state map: exactly the keys whose value is \<^verbatim>\<open>true\<close>, each once.
\<close>

theorem C8_selection_and_active_states:
  "selectedVariants (fst (arto_builder heap hub config plugins options))
     = safeMergeDefaults (case defaultVariants config of None \<Rightarrow> [] | Some d \<Rightarrow> d)
         (Some (case options of
                  None \<Rightarrow> []
                | Some opts \<Rightarrow> (case option_variants opts of None \<Rightarrow> [] | Some u \<Rightarrow> u)))
   \<and> activeStates (fst (arto_builder heap hub config plugins options))
     = collectTrueKeys (Some (case options of
                  None \<Rightarrow> []
                | Some opts \<Rightarrow> (case option_states opts of None \<Rightarrow> [] | Some r \<Rightarrow> r)))
   \<and> obj_get (safeMergeDefaults defaults (Some u)) k
     = (case obj_get u k of
          Some (Some v) \<Rightarrow> Some (Some v)
        | Some None \<Rightarrow> obj_get defaults k
        | None \<Rightarrow> obj_get defaults k)
   \<and> safeMergeDefaults defaults None = defaults
   \<and> (distinct (map fst r) \<longrightarrow>
        (k \<in> set (collectTrueKeys (Some r))) = (obj_get r k = Some (Boolean True)))
   \<and> distinct (collectTrueKeys (Some r))
   \<and> collectTrueKeys None = []"
proof (intro conjI impI)
  show "selectedVariants (fst (arto_builder heap hub config plugins options))
     = safeMergeDefaults (case defaultVariants config of None \<Rightarrow> [] | Some d \<Rightarrow> d)
         (Some (case options of
                  None \<Rightarrow> []
                | Some opts \<Rightarrow> (case option_variants opts of None \<Rightarrow> [] | Some u \<Rightarrow> u)))"
    by (cases options) (simp_all add: arto_builder_def ClassNameBuilder_def Let_def)
next
  show "activeStates (fst (arto_builder heap hub config plugins options))
     = collectTrueKeys (Some (case options of
                  None \<Rightarrow> []
                | Some opts \<Rightarrow> (case option_states opts of None \<Rightarrow> [] | Some r \<Rightarrow> r)))"
    by (cases options) (simp_all add: arto_builder_def ClassNameBuilder_def Let_def)
next
  show "obj_get (safeMergeDefaults defaults (Some u)) k
     = (case obj_get u k of
          Some (Some v) \<Rightarrow> Some (Some v)
        | Some None \<Rightarrow> obj_get defaults k
        | None \<Rightarrow> obj_get defaults k)"
    unfolding safeMergeDefaults_get by (simp add: selected_def split: option.splits)
next
  show "safeMergeDefaults defaults None = defaults" by (simp add: safeMergeDefaults_def)
next
  assume d: "distinct (map fst r)"
  have "((k, Boolean True) \<in> set r) = (map_of r k = Some (Boolean True))"
    using d by (metis map_of_eq_Some_iff)
  then show "(k \<in> set (collectTrueKeys (Some r))) = (obj_get r k = Some (Boolean True))"
    by (simp add: collectTrueKeys_set obj_get_def)
next
  show "distinct (collectTrueKeys (Some r))" by (rule collectTrueKeys_distinct)
next
  show "collectTrueKeys None = []" by (simp add: collectTrueKeys_def)
qed

theorem C8_selection_and_active_states_witness:
  "distinct (map fst [(''disabled'', Boolean True), (''loading'', Boolean False),
      (''hover'', NonBoolean)])
   \<and> safeMergeDefaults [(''size'', Some (VString ''small'')), (''color'', Some (VString ''blue''))]
        (Some [(''size'', None), (''color'', Some (VString ''red''))])
      = [(''size'', Some (VString ''small'')), (''color'', Some (VString ''red''))]
   \<and> collectTrueKeys (Some [(''disabled'', Boolean True), (''loading'', Boolean False),
        (''hover'', NonBoolean)]) = [''disabled'']
   \<and> ''disabled'' \<in> set (collectTrueKeys (Some [(''disabled'', Boolean True),
        (''loading'', Boolean False), (''hover'', NonBoolean)]))
   \<and> obj_get (safeMergeDefaults
          [(''size'', Some (VString ''small'')), (''color'', Some (VString ''blue''))]
          (Some [(''size'', None), (''color'', Some (VString ''red''))])) ''size''
      = Some (Some (VString ''small''))"
proof -
  let ?r = "[(''disabled'', Boolean True), (''loading'', Boolean False), (''hover'', NonBoolean)]"
  let ?d = "[(''size'', Some (VString ''small'')), (''color'', Some (VString ''blue''))]"
  let ?u = "[(''size'', None), (''color'', Some (VString ''red''))]"
  note t = C8_selection_and_active_states [of _ _ _ _ _ ?d ?u "''size''" ?r]
  note t' = C8_selection_and_active_states [of _ _ _ _ _ ?d ?u "''disabled''" ?r]
  have 1: "distinct (map fst ?r)" by simp
  have 2: "safeMergeDefaults ?d (Some ?u) = [(''size'', Some (VString ''small'')), (''color'', Some (VString ''red''))]"
    by (simp add: safeMergeDefaults_def selected_def obj_get_def)
  have 3: "collectTrueKeys (Some ?r) = [''disabled'']"
    by (simp add: collectTrueKeys_def set_add_def)
  have 4: "''disabled'' \<in> set (collectTrueKeys (Some ?r))"
    using t' [THEN conjunct2, THEN conjunct2, THEN conjunct2, THEN conjunct2, THEN conjunct1] 1
    by (simp add: obj_get_def)
  have 5: "obj_get (safeMergeDefaults ?d (Some ?u)) ''size'' = Some (Some (VString ''small''))"
    using t [THEN conjunct2, THEN conjunct2, THEN conjunct1]
    by (simp add: obj_get_def)
  show ?thesis using 1 2 3 4 5 by blast
qed

section \<open>Properties of the states plugin\<close>

lemma then_res_ok: "then_res (ok x) f = f x"
  by (simp add: then_res_def ok_def)

lemma then_res_Some_Inr: "then_res (Some (Inr x)) f = f x"
  by (simp add: then_res_def)

lemma then_res_returns:
  "then_res m f = Some (Inr y) \<Longrightarrow> \<exists>x. m = Some (Inr x) \<and> f x = Some (Inr y)"
  by (cases m) (auto simp: then_res_def split: sum.splits)





lemma read_property_inherited:
  "obj_get obj k = None \<Longrightarrow> inherited k \<Longrightarrow>
   read_property as heap obj k = Some (as (inherited_member heap k))"
  by (simp add: read_property_def)












lemma run_callbacks_done:
  "length (queue b) \<le> i \<Longrightarrow> run_callbacks code queue i b = Some (Inr b)"
  by (subst run_callbacks.simps) simp

lemma build_single_core:
  assumes "stage p = Some Core"
    and "\<And>b'. plugin_apply p b = Some (Inr b') \<Longrightarrow>
           postCoreCallbacks b' = [] \<and> finalBuildCallbacks b' = []"
  shows "build code [p] b = then_res (plugin_apply p b) final_list"
proof (cases "plugin_apply p b")
  case None
  then show ?thesis using assms(1) by (simp add: build_def then_res_def ok_def)
next
  case (Some r)
  show ?thesis
  proof (cases r)
    case (Inl e)
    then show ?thesis using Some assms(1) by (simp add: build_def then_res_def ok_def)
  next
    case (Inr b')
    have q: "postCoreCallbacks b' = []" "finalBuildCallbacks b' = []"
      using assms(2) [of b'] Some Inr by simp_all
    have 1: "run_callbacks code postCoreCallbacks 0 b' = Some (Inr b')"
      by (rule run_callbacks_done) (simp add: q)
    have 2: "run_callbacks code finalBuildCallbacks 0 b' = Some (Inr b')"
      by (rule run_callbacks_done) (simp add: q)
    show ?thesis using Some Inr assms(1) 1 2
      by (simp add: build_def then_res_def ok_def)
  qed
qed



lemma with_defaults_id: "stage p = Some s \<Longrightarrow> order p = Some n \<Longrightarrow> with_defaults p = p"
  by (simp add: with_defaults_def)

lemma sorted_plugins_single:
  "stage p = Some s \<Longrightarrow> order p = Some n \<Longrightarrow> sorted_plugins [p] = [p]"
  by (simp add: sorted_plugins_def js_sort_def with_defaults_id)







section \<open>Properties of the variants plugin\<close>

lemma then_res_assoc: "then_res (then_res m f) g = then_res m (\<lambda>x. then_res (f x) g)"
  by (cases m) (auto simp: then_res_def split: sum.splits)

lemma then_res_None: "then_res None f = None"
  by (simp add: then_res_def)

lemma then_res_Inl: "then_res (Some (Inl e)) f = Some (Inl e)"
  by (simp add: then_res_def)

lemma then_res_throw: "then_res (throw e) f = throw e"
  by (simp add: then_res_def throw_def)

lemma then_res_fails:
  "then_res m f = Some (Inl e) \<Longrightarrow>
   m = Some (Inl e) \<or> (\<exists>x. m = Some (Inr x) \<and> f x = Some (Inl e))"
  by (cases m) (auto simp: then_res_def split: sum.splits)

text \<open>One step of the loop, by what the selection and the value map hold.\<close>

lemma variants_step_null:
  "selected sel k = None \<Longrightarrow>
   VariantsPlugin_loop heap vs sel ctx (k # keys) b = VariantsPlugin_loop heap vs sel ctx keys b"
  by simp

lemma variants_step_no_map:
  "obj_get vs k \<noteq> Some (Some opts) \<Longrightarrow> (\<And>opts'. obj_get vs k \<noteq> Some (Some opts')) \<Longrightarrow>
   VariantsPlugin_loop heap vs sel ctx (k # keys) b = VariantsPlugin_loop heap vs sel ctx keys b"
  by (cases "selected sel k"; cases "obj_get vs k") (auto split: option.splits)

lemma variants_step_falsy:
  "selected sel k = Some v \<Longrightarrow> obj_get vs k = Some (Some opts) \<Longrightarrow> lookup_falsy heap opts v \<Longrightarrow>
   VariantsPlugin_loop heap vs sel ctx (k # keys) b =
   throw (throwError (invalid_value_message v k))"
  by (auto simp: lookup_falsy_def split: option.splits)

lemma variants_step_truthy:
  "selected sel k = Some v \<Longrightarrow> obj_get vs k = Some (Some opts) \<Longrightarrow>
   read_property VariantClassName heap opts (String v) = Some e \<Longrightarrow> variant_entry_truthy e \<Longrightarrow>
   VariantsPlugin_loop heap vs sel ctx (k # keys) b =
   then_res (processVariantConfig heap k e ctx b)
     (\<lambda>(variantClassList, b').
        then_res (addVariantClasses k variantClassList b')
          (VariantsPlugin_loop heap vs sel ctx keys))"
  by simp

lemma variants_loop_append:
  "VariantsPlugin_loop heap vs sel ctx (xs @ ys) b =
   then_res (VariantsPlugin_loop heap vs sel ctx xs b) (VariantsPlugin_loop heap vs sel ctx ys)"
proof (induction xs arbitrary: b)
  case Nil
  then show ?case by (simp add: then_res_ok)
next
  case (Cons k xs)
  show ?case
  proof (cases "selected sel k")
    case None
    then show ?thesis using Cons by simp
  next
    case (Some v)
    show ?thesis
    proof (cases "obj_get vs k")
      case None
      then show ?thesis using Some Cons by simp
    next
      case outer: (Some oo)
      show ?thesis
      proof (cases oo)
        case None
        then show ?thesis using Some outer Cons by simp
      next
        case inner: (Some opts)
        show ?thesis
        proof (cases "lookup_falsy heap opts v")
          case True
          show ?thesis
            using variants_step_falsy [OF Some _ True, of vs ctx] outer inner
            by (simp add: then_res_throw)
        next
          case False
          then obtain e where e: "read_property VariantClassName heap opts (String v) = Some e"
            "variant_entry_truthy e"
            by (auto simp: lookup_falsy_def split: option.splits)
          have o: "obj_get vs k = Some (Some opts)" using outer inner by simp
          have "VariantsPlugin_loop heap vs sel ctx ((k # xs) @ ys) b =
              then_res (processVariantConfig heap k e ctx b)
                (\<lambda>(variantClassList, b').
                   then_res (addVariantClasses k variantClassList b')
                     (VariantsPlugin_loop heap vs sel ctx (xs @ ys)))"
            using variants_step_truthy [OF Some o e, of ctx "xs @ ys" b] by simp
          also have "\<dots> = then_res (processVariantConfig heap k e ctx b)
                (\<lambda>x. then_res ((\<lambda>(variantClassList, b').
                   then_res (addVariantClasses k variantClassList b')
                     (VariantsPlugin_loop heap vs sel ctx xs)) x)
                   (VariantsPlugin_loop heap vs sel ctx ys))"
          proof -
            have "VariantsPlugin_loop heap vs sel ctx (xs @ ys) =
                (\<lambda>b1. then_res (VariantsPlugin_loop heap vs sel ctx xs b1)
                   (VariantsPlugin_loop heap vs sel ctx ys))"
              using Cons by (intro ext)
            then show ?thesis by (simp add: split_def then_res_assoc)
          qed
          also have "\<dots> = then_res (VariantsPlugin_loop heap vs sel ctx (k # xs) b)
                (VariantsPlugin_loop heap vs sel ctx ys)"
            unfolding variants_step_truthy [OF Some o e, of ctx xs b]
            by (simp add: then_res_assoc)
          finally show ?thesis .
        qed
      qed
    qed
  qed
qed

subsection \<open>Which errors can arise\<close>

lemma loop_error:
  "normalize_loop heap ctx stack result seen trace = Some y \<Longrightarrow>
   (case y of Inl e \<Rightarrow> \<exists>m. e = throwError (''Error resolving class function: '' @ m)
    | Inr r \<Rightarrow> True)"
proof (induction heap ctx stack result seen trace y
    rule: normalize_loop.raw_induct [rotated 1, consumes 1])
  case (1 loop heap ctx stack result seen trace y)
  show ?case
  proof (cases stack)
    case Nil
    have "y = Inr (result, trace)" using 1(2) unfolding Nil by simp
    then show ?thesis by simp
  next
    case (Cons item rest)
    show ?thesis
    proof (cases item)
      case (Str s)
      have "loop heap ctx rest (fold set_add (fragments s) result) seen trace = Some y"
        using 1(2) unfolding Cons Str by simp
      from 1(1) [OF this] show ?thesis .
    next
      case (Arr items)
      have "loop heap ctx (items @ rest) result seen trace = Some y"
        using 1(2) unfolding Cons Arr by (simp add: push_reversed)
      from 1(1) [OF this] show ?thesis .
    next
      case (ArrRef a)
      have "loop heap ctx (elements heap a @ rest) result seen trace = Some y"
        using 1(2) unfolding Cons ArrRef by (simp add: push_reversed)
      from 1(1) [OF this] show ?thesis .
    next
      case Nullish
      have "loop heap ctx rest result seen trace = Some y" using 1(2) unfolding Cons Nullish by simp
      from 1(1) [OF this] show ?thesis .
    next
      case (Unsupported t)
      have "loop heap ctx rest result seen trace = Some y"
        using 1(2) unfolding Cons Unsupported by simp
      from 1(1) [OF this] show ?thesis .
    next
      case (Fn f)
      show ?thesis
      proof (cases "f \<in> set seen")
        case True
        have "loop heap ctx rest result seen (trace @ [WarnedCyclic f]) = Some y"
          using 1(2) True unfolding Cons Fn by simp
        from 1(1) [OF this] show ?thesis .
      next
        case False
        show ?thesis
        proof (cases "call heap f ctx")
          case (Throws t)
          have "\<exists>m. y = Inl (throwError (''Error resolving class function: '' @ m))"
            using 1(2) False Throws unfolding Cons Fn by (cases t) auto
          then show ?thesis by auto
        next
          case (Returns r)
          have "loop heap ctx (if truthy r then r # rest else rest) result (set_add f seen)
                  (trace @ [Called f]) = Some y"
            using 1(2) False Returns unfolding Cons Fn
            by (cases "truthy r") simp_all
          from 1(1) [OF this] show ?thesis .
        qed
      qed
    qed
  qed
qed

lemma normalize_error:
  "normalizeClassName heap cn ctx = Some (Inl e) \<Longrightarrow>
   \<exists>m. e = throwError (''Error resolving class function: '' @ m)"
proof -
  assume a: "normalizeClassName heap cn ctx = Some (Inl e)"
  then have "normalize_loop heap ctx [cn] [] [] [] = Some (Inl e)"
    by (auto simp: normalizeClassName_def normalize_run_def split: option.splits sum.splits)
  from loop_error [OF this] show ?thesis by simp
qed


lemma process_without_states_error:
  assumes "without_states e" "processVariantConfig heap k e ctx b = Some (Inl err)"
  shows "(\<exists>m. err = throwError (''Error resolving class function: '' @ m))
         \<or> err = throwError ''Invalid variant configuration item encountered.''"
proof (cases e)
  case (VariantClassName cn)
  show ?thesis
  proof (cases "isClassNameType cn")
    case True
    then have "then_res (normalizeClassName heap cn ctx) (\<lambda>classes. ok (classes, b))
        = Some (Inl err)"
      using assms(2) VariantClassName by (simp add: processVariantConfig_def)
    from then_res_fails [OF this] have "normalizeClassName heap cn ctx = Some (Inl err)"
      by (auto simp: ok_def)
    then show ?thesis using normalize_error by blast
  next
    case False
    then show ?thesis using assms(2) VariantClassName
      by (simp add: processVariantConfig_def throw_def)
  qed
next
  case (VariantConfig cn sts)
  have s: "(case sts of Present (Some statesObj) \<Rightarrow>
              mergeVariantStates heap k (activeStates b) ctx statesObj b
            | _ \<Rightarrow> ok b) = ok b"
  proof (cases sts)
    case Absent
    then show ?thesis by simp
  next
    case (Present o1)
    then show ?thesis using assms(1) VariantConfig by (cases o1) simp_all
  qed
  show ?thesis
  proof (cases "isVariantConfig e")
    case False
    then show ?thesis using assms(2) VariantConfig
      by (simp add: processVariantConfig_def throw_def)
  next
    case True
    let ?m = "case cn of
                 Present c \<Rightarrow> if truthy c then normalizeClassName heap c ctx else ok []
               | Absent \<Rightarrow> ok []"
    have "then_res ?m (\<lambda>classes. ok (classes, b)) = Some (Inl err)"
      using assms(2) VariantConfig True s
      by (simp add: processVariantConfig_def then_res_ok)
    from then_res_fails [OF this] have m: "?m = Some (Inl err)" by (auto simp: ok_def)
    then obtain c where "normalizeClassName heap c ctx = Some (Inl err)"
      by (cases cn) (auto simp: ok_def split: if_splits)
    then show ?thesis using normalize_error by blast
  qed
qed

lemma addVariantClasses_error:
  "addVariantClasses k cls b = Some (Inl err) \<Longrightarrow> err = TypeError"
  by (auto simp: addVariantClasses_def ok_def throw_def split: option.splits if_splits)

lemma invalid_value_not_other:
  "throwError (invalid_value_message v k) \<noteq> throwError (''Error resolving class function: '' @ m)"
  "throwError (invalid_value_message v k)
     \<noteq> throwError ''Invalid variant configuration item encountered.''"
  "throwError (invalid_value_message v k) \<noteq> TypeError"
  by (simp_all add: throwError_def invalid_value_message_def TypeError_def)

lemma variants_single_iff:
  assumes "selected sel k = Some v" "obj_get vs k = Some (Some opts)"
    and "case read_property VariantClassName heap opts (String v) of
           None \<Rightarrow> True | Some entry \<Rightarrow> without_states entry"
  shows "(VariantsPlugin_loop heap vs sel ctx [k] b = throw (throwError (invalid_value_message v k)))
         = lookup_falsy heap opts v"
proof (cases "lookup_falsy heap opts v")
  case True
  then show ?thesis using variants_step_falsy [OF assms(1,2) True] by simp
next
  case False
  then obtain e where e: "read_property VariantClassName heap opts (String v) = Some e"
    "variant_entry_truthy e"
    by (auto simp: lookup_falsy_def split: option.splits)
  have w: "without_states e" using assms(3) e(1) by simp
  have s: "VariantsPlugin_loop heap vs sel ctx [k] b =
      then_res (processVariantConfig heap k e ctx b)
        (\<lambda>(variantClassList, b'). addVariantClasses k variantClassList b')"
  proof -
    have "(\<lambda>(variantClassList, b').
        then_res (addVariantClasses k variantClassList b') (VariantsPlugin_loop heap vs sel ctx []))
      = (\<lambda>(variantClassList, b'). addVariantClasses k variantClassList b')"
      by (intro ext) (auto simp: then_res_def ok_def split: option.splits sum.splits)
    then show ?thesis using variants_step_truthy [OF assms(1,2) e, of ctx "[]" b] by simp
  qed
  have "VariantsPlugin_loop heap vs sel ctx [k] b \<noteq> Some (Inl (throwError (invalid_value_message v k)))"
  proof
    assume "VariantsPlugin_loop heap vs sel ctx [k] b = Some (Inl (throwError (invalid_value_message v k)))"
    then have "then_res (processVariantConfig heap k e ctx b)
        (\<lambda>(variantClassList, b'). addVariantClasses k variantClassList b')
        = Some (Inl (throwError (invalid_value_message v k)))"
      using s by simp
    from then_res_fails [OF this]
    show False
    proof
      assume "processVariantConfig heap k e ctx b
          = Some (Inl (throwError (invalid_value_message v k)))"
      from process_without_states_error [OF w this] show False
        using invalid_value_not_other(1,2) [of v k] by blast
    next
      assume "\<exists>x. processVariantConfig heap k e ctx b = Some (Inr x)
          \<and> (case x of (variantClassList, b') \<Rightarrow> addVariantClasses k variantClassList b')
            = Some (Inl (throwError (invalid_value_message v k)))"
      then obtain x where "processVariantConfig heap k e ctx b = Some (Inr x)"
        and x: "(case x of (variantClassList, b') \<Rightarrow>
            addVariantClasses k variantClassList b')
          = Some (Inl (throwError (invalid_value_message v k)))"
        by (elim exE conjE)
      obtain cls b' where "x = (cls, b')" by (cases x)
      then have "addVariantClasses k cls b'
          = Some (Inl (throwError (invalid_value_message v k)))"
        using x by simp
      from addVariantClasses_error [OF this] show False
        using invalid_value_not_other(3) [of v k] by simp
    qed
  qed
  then show ?thesis using False by (simp add: throw_def)
qed


lemma variants_apply_undeclared:
  assumes "variants (artoConfig b) = Some vs" "map fst vs = before @ k # after"
    "obj_get vs k = Some (Some opts)" "selected (selectedVariants b) k = Some v"
    "lookup_falsy heap opts v"
  shows "VariantsPlugin_apply heap b =
     then_res (VariantsPlugin_loop heap vs (selectedVariants b) (builder_context b) before b)
       (\<lambda>b1. throw (throwError (invalid_value_message v k)))"
proof -
  have "VariantsPlugin_apply heap b =
      VariantsPlugin_loop heap vs (selectedVariants b) (builder_context b) (before @ k # after) b"
    using assms(1,2) by (simp add: VariantsPlugin_apply_def)
  also have "\<dots> =
      then_res (VariantsPlugin_loop heap vs (selectedVariants b) (builder_context b) before b)
        (VariantsPlugin_loop heap vs (selectedVariants b) (builder_context b) (k # after))"
    by (rule variants_loop_append)
  also have "VariantsPlugin_loop heap vs (selectedVariants b) (builder_context b) (k # after)
      = (\<lambda>b1. throw (throwError (invalid_value_message v k)))"
    using variants_step_falsy [OF assms(4) assms(3) assms(5)] by (intro ext)
  finally show ?thesis .
qed


lemma build_single_core_unfold:
  "stage p = Some Core \<Longrightarrow>
   build code [p] b =
     then_res (plugin_apply p b) (\<lambda>b2.
     then_res (run_callbacks code postCoreCallbacks 0 b2) (\<lambda>b3.
     then_res (run_callbacks code finalBuildCallbacks 0 b3) final_list))"
  by (simp add: build_def then_res_ok then_res_assoc)

lemma build_single_core_fail:
  assumes "stage p = Some Core" "plugin_apply p b = then_res m (\<lambda>x. throw e)"
  shows "build code [p] b = then_res m (\<lambda>x. throw e)"
  unfolding build_single_core_unfold [OF assms(1)] assms(2)
  by (simp add: then_res_assoc then_res_throw)

lemma variants_only_builder:
  "arto_builder heap [] (variants_only vs defaults) None options =
     (fst (arto_builder heap [] (variants_only vs defaults) None options),
      [VariantsPlugin heap (Finite 0)])"
proof -
  have "sorted_plugins [VariantsPlugin heap (Finite 0)] = [VariantsPlugin heap (Finite 0)]"
    by (rule sorted_plugins_single [of _ Core "Finite 0"]) (simp_all add: VariantsPlugin_def)
  then show ?thesis
    by (simp add: arto_builder_def ClassNameBuilder_def internalPlugins_def variants_only_def
        Let_def)
qed

lemma variants_only_fails:
  assumes "b0 = fst (arto_builder heap [] (variants_only vs defaults) None options)"
    "map fst vs = before @ k # after"
    "obj_get vs k = Some (Some opts)" "selected (selectedVariants b0) k = Some v"
    "lookup_falsy heap opts v"
  shows "arto heap code [] (variants_only vs defaults) None options =
     then_res (VariantsPlugin_loop heap vs (selectedVariants b0) (builder_context b0) before b0)
       (\<lambda>b1. throw (throwError (invalid_value_message v k)))"
proof -
  let ?p = "VariantsPlugin heap (Finite 0)"
  have c: "variants (artoConfig b0) = Some vs"
    unfolding assms(1)
    by (simp add: arto_builder_def ClassNameBuilder_def variants_only_def Let_def)
  have ap: "plugin_apply ?p b0 =
     then_res (VariantsPlugin_loop heap vs (selectedVariants b0) (builder_context b0) before b0)
       (\<lambda>b1. throw (throwError (invalid_value_message v k)))"
    using variants_apply_undeclared [OF c assms(2) assms(3) assms(4) assms(5)]
    by (simp add: VariantsPlugin_def)
  have st: "stage ?p = Some Core" by (simp add: VariantsPlugin_def)
  have "build code [?p] b0 =
     then_res (VariantsPlugin_loop heap vs (selectedVariants b0) (builder_context b0) before b0)
       (\<lambda>b1. throw (throwError (invalid_value_message v k)))"
    by (rule build_single_core_fail [OF st ap])
  moreover have "arto heap code [] (variants_only vs defaults) None options =
      then_res (build code [?p] b0) (\<lambda>classList. ok (join classList))"
  proof -
    have "arto_builder heap [] (variants_only vs defaults) None options = (b0, [?p])"
      using variants_only_builder [of heap vs defaults options] assms(1) by simp
    then show ?thesis by (simp add: arto_def)
  qed
  ultimately show ?thesis by (simp add: then_res_assoc then_res_throw)
qed

lemma arto_builder_selection:
  "selectedVariants (fst (arto_builder heap hub config plugins options)) = selection_of config options"
  by (cases options) (simp_all add: arto_builder_def ClassNameBuilder_def selection_of_def Let_def)


lemma lookup_falsy_iff:
  "lookup_falsy heap opts v =
     ((obj_get opts (String v) = None \<and> \<not> inherited (String v))
      \<or> (\<exists>entry. obj_get opts (String v) = Some entry \<and> \<not> variant_entry_truthy entry))"
  by (cases "obj_get opts (String v)")
     (auto simp: lookup_falsy_def read_property_def inherited_member_def)

lemma variants_only_first_key_fails:
  assumes "selected (selection_of (variants_only ((k, Some opts) # rest) defaults) options) k = Some v"
    "lookup_falsy heap opts v"
  shows "arto heap code [] (variants_only ((k, Some opts) # rest) defaults) None options =
     throw (throwError (invalid_value_message v k))"
proof -
  let ?vs = "(k, Some opts) # rest"
  let ?b0 = "fst (arto_builder heap [] (variants_only ?vs defaults) None options)"
  have 1: "map fst ?vs = [] @ k # map fst rest" by simp
  have 2: "obj_get ?vs k = Some (Some opts)" by (simp add: obj_get_def)
  have 3: "selected (selectedVariants ?b0) k = Some v"
    using assms(1) by (simp add: arto_builder_selection)
  from variants_only_fails [OF refl 1 2 3 assms(2), of code]
  show ?thesis by (simp add: then_res_ok)
qed


lemma example_selection:
  "selected (selection_of (variants_only example_variants None)
      (Some (variants_option [(''size'', x)]))) ''size'' = x"
  by (cases x)
     (simp_all add: selection_of_def variants_only_def variants_option_def safeMergeDefaults_def
       selected_def obj_get_def)



lemma example_null_selection:
  "arto no_callbacks no_code [] (variants_only example_variants None) None
     (Some (variants_option [(''size'', None)])) = Some (Inr [])"
proof -
  have q: "run_callbacks no_code queue 0 b = Some (Inr b)" if "queue b = []" for queue b
    using that by (simp add: run_callbacks_done)
  show ?thesis
    by (simp add: arto_def arto_builder_def ClassNameBuilder_def internalPlugins_def
        variants_only_def variants_option_def safeMergeDefaults_def collectTrueKeys_def
        sorted_plugins_def js_sort_def with_defaults_def VariantsPlugin_def build_def
        VariantsPlugin_apply_def example_variants_def obj_get_def selected_def then_res_def
        ok_def q final_list_def)
qed

text \<open>
  Claim C10. In \<^verbatim>\<open>VariantsPlugin.apply\<close> the step for a key that has a selected value and
  a value map throws the invalid-value error when what the map holds for the value is
  falsy, also when the value is declared with a falsy class expression such as the empty
  string; when it is truthy the step goes on to process the entry and to add its classes.
  What the read finds is falsy iff the value is not declared and not the name of a member
  of \<^verbatim>\<open>Object.prototype\<close>, or is declared with a falsy entry. For an entry without
  variant-level states the step throws this error exactly when what the map holds is
  falsy. A key whose selection is \<^verbatim>\<open>null\<close> or \<^verbatim>\<open>undefined\<close> is passed over without an
  error (a key that the selection does not have is taken not to be named like a member of
  \<^verbatim>\<open>Object.prototype\<close>).
\<close>

theorem C10_invalid_value_iff_falsy_lookup:
  "(selected sel k = Some v \<and> obj_get vs k = Some (Some opts)
      \<and> (case read_property VariantClassName heap opts (String v) of
            None \<Rightarrow> True | Some entry \<Rightarrow> without_states entry) \<longrightarrow>
      (VariantsPlugin_loop heap vs sel ctx [k] b = throw (throwError (invalid_value_message v k)))
        = lookup_falsy heap opts v)
   \<and> (selected sel k = Some v \<and> obj_get vs k = Some (Some opts) \<and> lookup_falsy heap opts v \<longrightarrow>
        VariantsPlugin_loop heap vs sel ctx (k # keys) b =
          throw (throwError (invalid_value_message v k)))
   \<and> (selected sel k = Some v \<and> obj_get vs k = Some (Some opts)
        \<and> read_property VariantClassName heap opts (String v) = Some entry
        \<and> variant_entry_truthy entry \<longrightarrow>
        VariantsPlugin_loop heap vs sel ctx (k # keys) b =
          then_res (processVariantConfig heap k entry ctx b)
            (\<lambda>(variantClassList, b').
               then_res (addVariantClasses k variantClassList b')
                 (VariantsPlugin_loop heap vs sel ctx keys)))
   \<and> (selected sel k = None \<and> (obj_get sel k = None \<longrightarrow> \<not> inherited k) \<longrightarrow>
        VariantsPlugin_loop heap vs sel ctx (k # keys) b = VariantsPlugin_loop heap vs sel ctx keys b)
   \<and> lookup_falsy heap opts v =
       ((obj_get opts (String v) = None \<and> \<not> inherited (String v))
        \<or> (\<exists>entry. obj_get opts (String v) = Some entry \<and> \<not> variant_entry_truthy entry))
   \<and> \<not> variant_entry_truthy (VariantClassName (Str []))
   \<and> arto no_callbacks no_code [] (variants_only example_variants None) None
        (Some (variants_option [(''size'', Some (VString ''none''))]))
       = throw (throwError (invalid_value_message (VString ''none'') ''size''))
   \<and> arto no_callbacks no_code [] (variants_only example_variants None) None
        (Some (variants_option [(''size'', None)])) = Some (Inr [])"
proof (intro conjI impI)
  assume "selected sel k = Some v \<and> obj_get vs k = Some (Some opts)
      \<and> (case read_property VariantClassName heap opts (String v) of
            None \<Rightarrow> True | Some entry \<Rightarrow> without_states entry)"
  then show "(VariantsPlugin_loop heap vs sel ctx [k] b
        = throw (throwError (invalid_value_message v k))) = lookup_falsy heap opts v"
    using variants_single_iff [of sel k v vs opts heap ctx b] by blast
next
  assume "selected sel k = Some v \<and> obj_get vs k = Some (Some opts) \<and> lookup_falsy heap opts v"
  then show "VariantsPlugin_loop heap vs sel ctx (k # keys) b =
          throw (throwError (invalid_value_message v k))"
    using variants_step_falsy [of sel k v vs opts heap ctx keys b] by blast
next
  assume "selected sel k = Some v \<and> obj_get vs k = Some (Some opts)
        \<and> read_property VariantClassName heap opts (String v) = Some entry
        \<and> variant_entry_truthy entry"
  then show "VariantsPlugin_loop heap vs sel ctx (k # keys) b =
          then_res (processVariantConfig heap k entry ctx b)
            (\<lambda>(variantClassList, b').
               then_res (addVariantClasses k variantClassList b')
                 (VariantsPlugin_loop heap vs sel ctx keys))"
    using variants_step_truthy [of sel k v vs opts heap entry ctx keys b] by blast
next
  assume "selected sel k = None \<and> (obj_get sel k = None \<longrightarrow> \<not> inherited k)"
  then show "VariantsPlugin_loop heap vs sel ctx (k # keys) b
      = VariantsPlugin_loop heap vs sel ctx keys b"
    using variants_step_null [of sel k heap vs ctx keys b] by blast
next
  show "lookup_falsy heap opts v =
       ((obj_get opts (String v) = None \<and> \<not> inherited (String v))
        \<or> (\<exists>entry. obj_get opts (String v) = Some entry \<and> \<not> variant_entry_truthy entry))"
    by (rule lookup_falsy_iff)
next
  show "\<not> variant_entry_truthy (VariantClassName (Str []))" by simp
next
  let ?opts = "[(''small'', VariantClassName (Str ''btn-sm'')),
            (''large'', VariantClassName (Str ''btn-lg'')),
            (''none'', VariantClassName (Str [])) :: string \<times> unit variant_entry]"
  have f: "lookup_falsy no_callbacks ?opts (VString ''none'')"
    by (simp add: lookup_falsy_def read_property_def obj_get_def)
  have s: "selected (selection_of (variants_only ((''size'', Some ?opts) # []) None)
      (Some (variants_option [(''size'', Some (VString ''none''))]))) ''size''
      = Some (VString ''none'')"
    using example_selection [of "Some (VString ''none'')"] by (simp add: example_variants_def)
  from variants_only_first_key_fails [OF s f, of no_code]
  show "arto no_callbacks no_code [] (variants_only example_variants None) None
        (Some (variants_option [(''size'', Some (VString ''none''))]))
       = throw (throwError (invalid_value_message (VString ''none'') ''size''))"
    by (simp add: example_variants_def)
next
  show "arto no_callbacks no_code [] (variants_only example_variants None) None
        (Some (variants_option [(''size'', None)])) = Some (Inr [])"
    by (rule example_null_selection)
qed

theorem C10_invalid_value_iff_falsy_lookup_witness:
  "selected [(''size'', Some (VString ''none''))] ''size'' = Some (VString ''none'')
   \<and> obj_get example_variants ''size''
       = Some (Some [(''small'', VariantClassName (Str ''btn-sm'')),
                     (''large'', VariantClassName (Str ''btn-lg'')),
                     (''none'', VariantClassName (Str []))])
   \<and> lookup_falsy no_callbacks [(''small'', VariantClassName (Str ''btn-sm'')),
                     (''large'', VariantClassName (Str ''btn-lg'')),
                     (''none'', VariantClassName (Str [])) :: string \<times> unit variant_entry]
        (VString ''none'')
   \<and> VariantsPlugin_loop no_callbacks example_variants [(''size'', Some (VString ''none''))] None
        [''size''] (new_builder empty_config [] [])
       = Some (Inl (ArtoError (''[Arto Error]: Invalid value '' @ [CHR 0x27] @ ''none''
           @ [CHR 0x27] @ '' for variant '' @ [CHR 0x27] @ ''size'' @ [CHR 0x27] @ ''.'')))
   \<and> \<not> lookup_falsy object_heap [(''small'', VariantClassName (Str ''btn-sm'')),
                     (''large'', VariantClassName (Str ''btn-lg'')),
                     (''none'', VariantClassName (Str [])) :: string \<times> unit variant_entry]
        (VString ''constructor'')
   \<and> VariantsPlugin_loop object_heap example_variants
        [(''size'', Some (VString ''constructor''))] None
        [''size''] (new_builder empty_config [] [])
       \<noteq> throw (throwError (invalid_value_message (VString ''constructor'') ''size''))
   \<and> selected [(''size'', None)] ''size'' = None
   \<and> VariantsPlugin_loop no_callbacks example_variants [(''size'', None)] None [''size'']
        (new_builder empty_config [] [])
       = Some (Inr (new_builder empty_config [] []))
   \<and> VariantsPlugin_loop no_callbacks example_variants [(''size'', Some (VString ''none''))] None
        [''size'', ''tone''] (new_builder empty_config [] [])
       = Some (Inl (ArtoError (''[Arto Error]: Invalid value '' @ [CHR 0x27] @ ''none''
           @ [CHR 0x27] @ '' for variant '' @ [CHR 0x27] @ ''size'' @ [CHR 0x27] @ ''.'')))
   \<and> VariantsPlugin_loop no_callbacks example_variants [(''size'', Some (VString ''small''))] None
        [''size''] (new_builder empty_config [] [])
       = Some (Inr ((new_builder empty_config [] [])
            \<lparr>variantClassNames := [(''size'', [''btn-sm''])]\<rparr>))"
proof -
  note t2 = C10_invalid_value_iff_falsy_lookup [where sel = "[(''size'', Some (VString ''none''))]"
      and k = "''size''" and v = "VString ''none''" and vs = example_variants
      and opts = "[(''small'', VariantClassName (Str ''btn-sm'')),
            (''large'', VariantClassName (Str ''btn-lg'')),
            (''none'', VariantClassName (Str []))]"
      and heap = no_callbacks and ctx = None and b = "new_builder empty_config [] []"
      and keys = "[''tone'']", THEN conjunct2, THEN conjunct1]
  note t3 = C10_invalid_value_iff_falsy_lookup [where sel = "[(''size'', Some (VString ''small''))]"
      and k = "''size''" and v = "VString ''small''" and vs = example_variants
      and opts = "[(''small'', VariantClassName (Str ''btn-sm'')),
            (''large'', VariantClassName (Str ''btn-lg'')),
            (''none'', VariantClassName (Str []))]"
      and heap = no_callbacks and ctx = None and b = "new_builder empty_config [] []"
      and keys = "[]" and entry = "VariantClassName (Str ''btn-sm'')",
      THEN conjunct2, THEN conjunct2, THEN conjunct1]
  let ?opts = "[(''small'', VariantClassName (Str ''btn-sm'')),
            (''large'', VariantClassName (Str ''btn-lg'')),
            (''none'', VariantClassName (Str [])) :: string \<times> unit variant_entry]"
  let ?b = "new_builder empty_config [] []"
  note t = C10_invalid_value_iff_falsy_lookup [of "[(''size'', Some (VString ''none''))]"
      "''size''" "VString ''none''" example_variants ?opts no_callbacks None ?b "[]"]
  note c = C10_invalid_value_iff_falsy_lookup [of "[(''size'', Some (VString ''constructor''))]"
      "''size''" "VString ''constructor''" example_variants ?opts object_heap None ?b "[]"]
  note u = C10_invalid_value_iff_falsy_lookup [of "[(''size'', None)]"
      "''size''" "VString ''none''" example_variants ?opts no_callbacks None ?b "[]"]
  have i: "inherited ''constructor''" "\<not> inherited ''size''" "\<not> inherited ''none''"
    by (simp_all add: inherited_def object_prototype_names_def)
  have 1: "selected [(''size'', Some (VString ''none''))] ''size'' = Some (VString ''none'')"
    "selected [(''size'', Some (VString ''constructor''))] ''size''
       = Some (VString ''constructor'')"
    by (simp_all add: selected_def obj_get_def)
  have 2: "obj_get example_variants ''size'' = Some (Some ?opts)"
    by (simp add: example_variants_def obj_get_def)
  have r: "read_property VariantClassName no_callbacks ?opts ''none''
      = Some (VariantClassName (Str []))"
    "read_property VariantClassName object_heap ?opts ''constructor''
      = Some (VariantClassName (Fn 0))"
    by (simp_all add: read_property_def obj_get_def i inherited_member_def object_heap_def)
  have 3: "lookup_falsy no_callbacks ?opts (VString ''none'')"
    by (simp add: lookup_falsy_def r)
  have 4: "VariantsPlugin_loop no_callbacks example_variants [(''size'', Some (VString ''none''))]
        None [''size''] ?b
       = throw (throwError (invalid_value_message (VString ''none'') ''size''))"
    using t [THEN conjunct1] 1 2 3 by (simp add: r)
  have 8: "\<not> lookup_falsy object_heap ?opts (VString ''constructor'')"
    by (simp add: lookup_falsy_def r)
  have 9: "VariantsPlugin_loop object_heap example_variants
        [(''size'', Some (VString ''constructor''))] None [''size''] ?b
       \<noteq> throw (throwError (invalid_value_message (VString ''constructor'') ''size''))"
    using c [THEN conjunct1] 1 2 8 by (simp add: r)
  have 5: "selected [(''size'', None)] ''size'' = None" by (simp add: selected_def obj_get_def)
  have 6: "VariantsPlugin_loop no_callbacks example_variants [(''size'', None)] None [''size''] ?b
       = VariantsPlugin_loop no_callbacks example_variants [(''size'', None)] None [] ?b"
    using u [THEN conjunct2, THEN conjunct2, THEN conjunct2, THEN conjunct1] 5
    by (simp add: obj_get_def)
  have 7: "throw (throwError (invalid_value_message (VString ''none'') ''size''))
      = (Some (Inl (ArtoError (''[Arto Error]: Invalid value '' @ [CHR 0x27] @ ''none''
           @ [CHR 0x27] @ '' for variant '' @ [CHR 0x27] @ ''size'' @ [CHR 0x27] @ ''.'')))
         :: unit builder res)"
    by (simp add: throw_def throwError_def invalid_value_message_def)
  have 10: "VariantsPlugin_loop no_callbacks example_variants
        [(''size'', Some (VString ''none''))] None [''size'', ''tone''] ?b
       = throw (throwError (invalid_value_message (VString ''none'') ''size''))"
    using t2 1(1) 2 3 by blast
  have s3: "selected [(''size'', Some (VString ''small''))] ''size'' = Some (VString ''small'')"
    by (simp add: selected_def obj_get_def)
  have r3: "read_property VariantClassName no_callbacks ?opts (String (VString ''small''))
      = Some (VariantClassName (Str ''btn-sm''))"
    by (simp add: read_property_def obj_get_def)
  have fs: "fragments ''btn-sm'' = [''btn-sm'']" by (simp add: fragments_def is_whitespace_def)
  have "VariantsPlugin_loop no_callbacks example_variants
        [(''size'', Some (VString ''small''))] None [''size''] ?b
      = then_res (processVariantConfig no_callbacks ''size'' (VariantClassName (Str ''btn-sm''))
            None ?b)
          (\<lambda>(variantClassList, b').
             then_res (addVariantClasses ''size'' variantClassList b')
               (VariantsPlugin_loop no_callbacks example_variants
                  [(''size'', Some (VString ''small''))] None []))"
    using t3 s3 2 r3 by simp
  then have 11: "VariantsPlugin_loop no_callbacks example_variants
        [(''size'', Some (VString ''small''))] None [''size''] ?b
      = Some (Inr (?b\<lparr>variantClassNames := [(''size'', [''btn-sm''])]\<rparr>))"
    by (simp add: processVariantConfig_def normalize_Str fs addVariantClasses_def then_res_def
        ok_def new_builder_def ClassNameBuilder_def obj_get_def i)
  show ?thesis using 1 2 3 4 5 6 7 8 9 10 11 by (simp add: ok_def)
qed

section \<open>Properties of the rules plugin\<close>





lemma apply_rule_no_match:
  "\<not> doesRuleApply (rule_when r) sel active ctx \<Longrightarrow> apply_rule heap sel active ctx r b = Some (Inr b)"
  by (simp add: apply_rule_def ok_def)





section \<open>Properties of the constructor and of build\<close>

subsection \<open>Numbers\<close>

lemma positive_minus:
  "x \<noteq> NaN \<Longrightarrow> y \<noteq> NaN \<Longrightarrow> positive (minus_number x y) = (\<not> number_le x y)"
  by (cases x; cases y) auto

lemma number_le_total: "x \<noteq> NaN \<Longrightarrow> y \<noteq> NaN \<Longrightarrow> number_le x y \<or> number_le y x"
  by (cases x; cases y) auto

lemma number_le_trans: "number_le x y \<Longrightarrow> number_le y z \<Longrightarrow> number_le x z"
  by (cases x; cases y; cases z) auto

lemma minus_same_not_positive: "\<not> positive (minus_number x x)"
  by (cases x) simp_all

subsection \<open>The sort\<close>

lemma compare_in_order:
  assumes "stage p = Some s" "order p = Some m" "m \<noteq> NaN"
    and "stage q = Some t" "order q = Some n" "n \<noteq> NaN"
  shows "(\<not> positive (compare_plugins p q)) = in_order p q"
proof (cases "s = t")
  case True
  then show ?thesis using assms
    by (simp add: compare_plugins_def stage_rank_def order_or_0_def in_order_def positive_minus)
next
  case False
  have a: "(\<not> 0 < stagePriority s - stagePriority t) = (stage_index s < stage_index t)"
    using False by (cases s; cases t; simp add: stagePriority_def)
  have b: "stagePriority s \<noteq> stagePriority t"
    using False by (cases s; cases t; simp add: stagePriority_def)
  show ?thesis using assms False a b
    by (simp add: compare_plugins_def stage_rank_def order_or_0_def in_order_def Let_def)
qed

lemma in_order_total:
  assumes "stage p = Some s" "order p = Some m" "m \<noteq> NaN"
    and "stage q = Some t" "order q = Some n" "n \<noteq> NaN"
  shows "in_order p q \<or> in_order q p"
  using assms number_le_total [of m n]
  by (cases "stage_index s < stage_index t"; cases "stage_index t < stage_index s";
      cases s; cases t) (auto simp: in_order_def)

lemma in_order_trans: "in_order p q \<Longrightarrow> in_order q r \<Longrightarrow> in_order p r"
proof -
  assume a: "in_order p q" and b: "in_order q r"
  from a obtain s m t n where p: "stage p = Some s" "order p = Some m"
    and q: "stage q = Some t" "order q = Some n"
    and pq: "stage_index s < stage_index t \<or> (s = t \<and> number_le m n)"
    by (auto simp: in_order_def split: option.splits)
  from b q obtain u k where r: "stage r = Some u" "order r = Some k"
    and qr: "stage_index t < stage_index u \<or> (t = u \<and> number_le n k)"
    by (auto simp: in_order_def split: option.splits)
  have "stage_index s < stage_index u \<or> (s = u \<and> number_le m k)"
    using pq qr number_le_trans [of m n k] by auto
  then show ?thesis using p r by (simp add: in_order_def)
qed

lemma js_insert_mset: "mset (js_insert cmp x ys) = add_mset x (mset ys)"
  by (induction ys) simp_all

lemma js_sort_mset: "mset (js_sort cmp xs) = mset xs"
  by (induction xs) (simp_all add: js_sort_def js_insert_mset)

lemma js_insert_set: "set (js_insert cmp x ys) = insert x (set ys)"
  by (induction ys) auto

lemma js_sort_set: "set (js_sort cmp xs) = set xs"
  by (induction xs) (simp_all add: js_sort_def js_insert_set)

lemma js_insert_sorted:
  assumes n: "\<forall>p \<in> set (x # ys). \<exists>s m. stage p = Some s \<and> order p = Some m \<and> m \<noteq> NaN"
  shows "sorted_wrt in_order ys \<Longrightarrow> sorted_wrt in_order (js_insert compare_plugins x ys)"
  using n
proof (induction ys)
  case Nil
  then show ?case by simp
next
  case (Cons y ys)
  obtain s m where x: "stage x = Some s" "order x = Some m" "m \<noteq> NaN"
    using Cons.prems(2) by auto
  obtain t k where y: "stage y = Some t" "order y = Some k" "k \<noteq> NaN"
    using Cons.prems(2) by auto
  show ?case
  proof (cases "positive (compare_plugins x y)")
    case False
    then have xy: "in_order x y" using compare_in_order [OF x y] by simp
    have "\<forall>z \<in> set ys. in_order x z" using Cons.prems(1) xy in_order_trans by auto
    then show ?thesis using False Cons.prems(1) xy by simp
  next
    case True
    then have "\<not> in_order x y" using compare_in_order [OF x y] by simp
    then have yx: "in_order y x" using in_order_total [OF x y] by simp
    have "\<forall>p \<in> set (x # ys). \<exists>s m. stage p = Some s \<and> order p = Some m \<and> m \<noteq> NaN"
      using Cons.prems(2) by simp
    then have "sorted_wrt in_order (js_insert compare_plugins x ys)"
      using Cons.IH Cons.prems(1) by simp
    moreover have "\<forall>z \<in> set (js_insert compare_plugins x ys). in_order y z"
      using Cons.prems(1) yx by (simp add: js_insert_set)
    ultimately show ?thesis using True by simp
  qed
qed

lemma js_sort_sorted:
  "\<forall>p \<in> set xs. \<exists>s m. stage p = Some s \<and> order p = Some m \<and> m \<noteq> NaN \<Longrightarrow>
   sorted_wrt in_order (js_sort compare_plugins xs)"
proof (induction xs)
  case Nil
  then show ?case by (simp add: js_sort_def)
next
  case (Cons x xs)
  have s: "sorted_wrt in_order (js_sort compare_plugins xs)" using Cons by simp
  have "\<forall>p \<in> set (x # js_sort compare_plugins xs).
      \<exists>s m. stage p = Some s \<and> order p = Some m \<and> m \<noteq> NaN"
    using Cons.prems by (simp add: js_sort_set)
  from js_insert_sorted [OF this s] show ?case by (simp add: js_sort_def)
qed

lemma with_defaults_fields:
  "stage (with_defaults p) = Some (case stage p of None \<Rightarrow> Core | Some s \<Rightarrow> s)"
  "order (with_defaults p) = Some (case order p of None \<Rightarrow> Finite 0 | Some n \<Rightarrow> n)"
  "plugin_apply (with_defaults p) = plugin_apply p"
  "plugin_id (with_defaults p) = plugin_id p"
  by (simp_all add: with_defaults_def)

lemma sorted_plugins_sorted:
  assumes "\<forall>r \<in> set raw. order r \<noteq> Some NaN"
  shows "sorted_wrt in_order (sorted_plugins raw)"
  unfolding sorted_plugins_def
proof (rule js_sort_sorted, rule ballI)
  fix p assume "p \<in> set (map with_defaults raw)"
  then obtain r where r: "r \<in> set raw" and p: "p = with_defaults r" by auto
  have "order r \<noteq> Some NaN" using assms r by blast
  then have "(case order r of None \<Rightarrow> Finite 0 | Some n \<Rightarrow> n) \<noteq> NaN"
    by (cases "order r") simp_all
  then show "\<exists>s m. stage p = Some s \<and> order p = Some m \<and> m \<noteq> NaN"
    unfolding p by (simp add: with_defaults_fields)
qed

lemma js_insert_stable:
  "filter (\<lambda>p. stage p = Some s \<and> order p = Some n) (js_insert compare_plugins x ys) =
   (if stage x = Some s \<and> order x = Some n then [x] else [])
   @ filter (\<lambda>p. stage p = Some s \<and> order p = Some n) ys"
proof (induction ys)
  case Nil
  then show ?case by simp
next
  case (Cons y ys)
  show ?case
  proof (cases "positive (compare_plugins x y)")
    case False
    then show ?thesis by simp
  next
    case True
    have "\<not> ((stage x = Some s \<and> order x = Some n) \<and> (stage y = Some s \<and> order y = Some n))"
    proof
      assume "(stage x = Some s \<and> order x = Some n) \<and> (stage y = Some s \<and> order y = Some n)"
      then have "compare_plugins x y = minus_number n n"
        by (simp add: compare_plugins_def stage_rank_def order_or_0_def)
      then show False using True minus_same_not_positive by simp
    qed
    then show ?thesis using True Cons by auto
  qed
qed

lemma js_sort_stable:
  "filter (\<lambda>p. stage p = Some s \<and> order p = Some n) (js_sort compare_plugins xs) =
   filter (\<lambda>p. stage p = Some s \<and> order p = Some n) xs"
proof (induction xs)
  case Nil
  then show ?case by (simp add: js_sort_def)
next
  case (Cons x xs)
  have "js_sort compare_plugins (x # xs) = js_insert compare_plugins x (js_sort compare_plugins xs)"
    by (simp add: js_sort_def)
  then show ?case using Cons by (simp add: js_insert_stable)
qed

subsection \<open>The phases of build\<close>

lemma run_stage_filter: "run_stage s ps b = run_plugins (filter (in_stage s) ps) b"
proof (induction ps arbitrary: b)
  case Nil
  then show ?case by simp
next
  case (Cons p ps)
  have "run_stage s ps = run_plugins (filter (in_stage s) ps)" using Cons by (intro ext)
  then show ?case by (cases "stage p = Some s") (simp_all add: in_stage_def [abs_def])
qed

lemma run_callbacks_step:
  "run_callbacks code queue i b =
     (if i < length (queue b)
      then then_res (code (queue b ! i) b) (run_callbacks code queue (Suc i))
      else ok b)"
  by (subst run_callbacks.simps) (simp add: then_res_def ok_def split: option.splits sum.splits)

lemma run_callbacks_in_order:
  assumes keep: "\<And>c b b'. code c b = Some (Inr b') \<Longrightarrow> queue b' = queue b"
  shows "run_callbacks code queue i b = run_in_order code (drop i (queue b)) b"
proof (induction "length (queue b) - i" arbitrary: i b)
  case 0
  then show ?case by (simp add: run_callbacks_step)
next
  case (Suc n)
  then have i: "i < length (queue b)" by simp
  have d: "drop i (queue b) = (queue b ! i) # drop (Suc i) (queue b)"
    using i by (simp add: Cons_nth_drop_Suc)
  have "then_res (code (queue b ! i) b) (run_callbacks code queue (Suc i)) =
        then_res (code (queue b ! i) b) (run_in_order code (drop (Suc i) (queue b)))"
  proof (cases "code (queue b ! i) b")
    case None
    then show ?thesis by (simp add: then_res_def)
  next
    case (Some r)
    show ?thesis
    proof (cases r)
      case (Inl e)
      then show ?thesis using Some by (simp add: then_res_def)
    next
      case (Inr b')
      have q: "queue b' = queue b" using keep Some Inr by blast
      have "n = length (queue b') - Suc i" using Suc.hyps(2) q by simp
      from Suc.hyps(1) [OF this] show ?thesis using Some Inr q by (simp add: then_res_def)
    qed
  qed
  then show ?case using i d by (simp add: run_callbacks_step)
qed

lemma build_phases:
  "build code ps b =
     then_res (run_plugins (filter (in_stage Before) ps) b) (\<lambda>b1.
     then_res (run_plugins (filter (in_stage Core) ps) b1) (\<lambda>b2.
     then_res (run_callbacks code postCoreCallbacks 0 b2) (\<lambda>b3.
     then_res (run_plugins (filter (in_stage After) ps) b3) (\<lambda>b4.
     then_res (run_callbacks code finalBuildCallbacks 0 b4) (\<lambda>b5.
     final_list b5)))))"
  by (simp add: build_def run_stage_filter)

subsection \<open>Examples\<close>

lemma arto_plugins_only:
  "arto no_callbacks code [] empty_config (Some ps) None =
     then_res (build code (sorted_plugins ps) (new_builder empty_config [] []))
       (\<lambda>classList. ok (join classList))"
  by (simp add: arto_def arto_builder_def ClassNameBuilder_def new_builder_def
      internalPlugins_def empty_config_def safeMergeDefaults_def collectTrueKeys_def)

lemma example_ABC:
  "arto no_callbacks no_code [] empty_config
     (Some [add_base_plugin ''C'' (Some After), add_base_plugin ''B'' None,
            add_base_plugin ''A'' (Some Before)]) None
   = Some (Inr ''A B C'')"
proof -
  let ?A = "with_defaults (add_base_plugin ''A'' (Some Before))"
  let ?B = "with_defaults (add_base_plugin ''B'' None)"
  let ?C = "with_defaults (add_base_plugin ''C'' (Some After))"
  have s: "sorted_plugins [add_base_plugin ''C'' (Some After), add_base_plugin ''B'' None,
            add_base_plugin ''A'' (Some Before)] = [?A, ?B, ?C]"
    by (simp add: sorted_plugins_def js_sort_def compare_plugins_def stage_rank_def
        order_or_0_def stagePriority_def with_defaults_fields add_base_plugin_def)
  have st: "stage ?A = Some Before" "stage ?B = Some Core" "stage ?C = Some After"
    by (simp_all add: with_defaults_fields add_base_plugin_def)
  have ap: "plugin_apply ?A = (\<lambda>b. ok (addBaseClasses [''A''] b))"
    "plugin_apply ?B = (\<lambda>b. ok (addBaseClasses [''B''] b))"
    "plugin_apply ?C = (\<lambda>b. ok (addBaseClasses [''C''] b))"
    by (simp_all add: with_defaults_fields add_base_plugin_def)
  have q: "run_callbacks no_code queue 0 b = Some (Inr b)" if "queue b = []" for queue b
    using that by (simp add: run_callbacks_done)
  have "build no_code [?A, ?B, ?C] (new_builder empty_config [] []) = Some (Inr [''A'', ''B'', ''C''])"
    by (simp add: build_def st ap then_res_def ok_def q addBaseClasses_def new_builder_def
        ClassNameBuilder_def final_list_def)
  then show ?thesis unfolding arto_plugins_only s by (simp add: then_res_def ok_def)
qed

lemma core_plugins_build:
  assumes "stage p1 = Some Core" "stage p2 = Some Core" "stage p3 = Some Core"
    and "plugin_apply p1 = (\<lambda>b. ok (addBaseClasses [c1] b))"
    and "plugin_apply p2 = (\<lambda>b. ok (addBaseClasses [c2] b))"
    and "plugin_apply p3 = (\<lambda>b. ok (addBaseClasses [c3] b))"
  shows "build no_code [p1, p2, p3] (new_builder empty_config [] []) = Some (Inr [c1, c2, c3])"
proof -
  have q: "run_callbacks no_code queue 0 b = Some (Inr b)" if "queue b = []" for queue b
    using that by (simp add: run_callbacks_done)
  show ?thesis
    by (simp add: build_def assms then_res_def ok_def q addBaseClasses_def new_builder_def
        ClassNameBuilder_def final_list_def)
qed

lemma example_orders:
  "map plugin_id (sorted_plugins [add_base_at ''two'' (Finite 2), add_base_plugin ''zero'' None,
      add_base_at ''minus'' (Finite (- 1)), add_base_at ''half'' (Finite (1 / 2))])
     = [''minus'', ''zero'', ''half'', ''two'']"
  by (simp add: sorted_plugins_def js_sort_def compare_plugins_def stage_rank_def
      order_or_0_def stagePriority_def with_defaults_fields add_base_plugin_def add_base_at_def)

lemma example_NaN_sorted:
  "sorted_plugins [add_base_at ''two'' (Finite 2), add_base_at ''nan'' NaN,
      add_base_at ''one'' (Finite 1)]
     = [with_defaults (add_base_at ''two'' (Finite 2)), with_defaults (add_base_at ''nan'' NaN),
        with_defaults (add_base_at ''one'' (Finite 1))]"
  by (simp add: sorted_plugins_def js_sort_def compare_plugins_def stage_rank_def
      order_or_0_def stagePriority_def with_defaults_fields add_base_at_def)

subsection \<open>The order of the plugins\<close>

text \<open>
  Claim C2, as amended: for plugin lists in which no order is \<^verbatim>\<open>NaN\<close>. The constructor
  gives a plugin without a stage the stage \<^verbatim>\<open>'core'\<close> and a plugin without a numeric
  order the order 0, and leaves the rest of it alone. The list it keeps is a rearrangement
  of the plugins with these defaults. When no plugin has the order \<^verbatim>\<open>NaN\<close>, every plugin
  of that list is in order with every later one: its \<^verbatim>\<open>stage\<close> comes earlier among
  \<^verbatim>\<open>before\<close>, \<^verbatim>\<open>core\<close>, \<^verbatim>\<open>after\<close>, or the two have the same \<^verbatim>\<open>stage\<close> and its
  \<^verbatim>\<open>order\<close> is at most the other's; and plugins with the same \<^verbatim>\<open>stage\<close> and the same
  \<^verbatim>\<open>order\<close> keep their relative order. \<^verbatim>\<open>build\<close> applies the plugins of stage \<^verbatim>\<open>before\<close> in
  the order of that list, then those of stage \<^verbatim>\<open>core\<close>, then calls the post-core
  callbacks by ascending index of their queue (in queue order when no callback changes
  the queue), then applies the plugins of stage \<^verbatim>\<open>after\<close>, then calls the final-build
  callbacks, and returns the concatenated buckets. A \<^verbatim>\<open>before\<close> plugin appending \<^verbatim>\<open>A\<close>, a
  plugin without stage appending \<^verbatim>\<open>B\<close> and an \<^verbatim>\<open>after\<close> plugin appending \<^verbatim>\<open>C\<close> to the
  base bucket, given in the opposite order, resolve to \<^verbatim>\<open>"A B C"\<close>; plugins of orders 2,
  none, -1 and 0.5, without stage, run in the order -1, none, 0.5, 2.
\<close>

theorem C2_plugin_order:
  "stage (with_defaults p) = Some (case stage p of None \<Rightarrow> Core | Some s \<Rightarrow> s)
   \<and> order (with_defaults p) = Some (case order p of None \<Rightarrow> Finite 0 | Some n \<Rightarrow> n)
   \<and> plugin_apply (with_defaults p) = plugin_apply p
   \<and> snd (ClassNameBuilder config sel active ctx raw) = sorted_plugins raw
   \<and> mset (sorted_plugins raw) = mset (map with_defaults raw)
   \<and> ((\<forall>r \<in> set raw. order r \<noteq> Some NaN) \<longrightarrow> sorted_wrt in_order (sorted_plugins raw))
   \<and> in_order p q =
       (\<exists>s m t n. stage p = Some s \<and> order p = Some m \<and> stage q = Some t \<and> order q = Some n
          \<and> (stage_index s < stage_index t \<or> (s = t \<and> number_le m n)))
   \<and> stage_index Before < stage_index Core \<and> stage_index Core < stage_index After
   \<and> number_le (Finite x) (Finite y) = (x \<le> y)
   \<and> ((\<forall>r \<in> set raw. order r \<noteq> Some NaN) \<longrightarrow>
        filter (\<lambda>p. stage p = Some s \<and> order p = Some n) (sorted_plugins raw)
          = filter (\<lambda>p. stage p = Some s \<and> order p = Some n) (map with_defaults raw))
   \<and> build code ps b =
       then_res (run_plugins (filter (in_stage Before) ps) b) (\<lambda>b1.
       then_res (run_plugins (filter (in_stage Core) ps) b1) (\<lambda>b2.
       then_res (run_callbacks code postCoreCallbacks 0 b2) (\<lambda>b3.
       then_res (run_plugins (filter (in_stage After) ps) b3) (\<lambda>b4.
       then_res (run_callbacks code finalBuildCallbacks 0 b4) (\<lambda>b5.
       final_list b5)))))
   \<and> run_callbacks code queue i b =
       (if i < length (queue b)
        then then_res (code (queue b ! i) b) (run_callbacks code queue (Suc i))
        else ok b)
   \<and> ((\<forall>c b0 b'. code c b0 = Some (Inr b') \<longrightarrow> queue b' = queue b0) \<longrightarrow>
        run_callbacks code queue 0 b = run_in_order code (queue b) b)
   \<and> arto no_callbacks no_code [] empty_config
        (Some [add_base_plugin ''C'' (Some After), add_base_plugin ''B'' None,
               add_base_plugin ''A'' (Some Before)]) None
       = Some (Inr ''A B C'')
   \<and> map plugin_id (sorted_plugins [add_base_at ''two'' (Finite 2), add_base_plugin ''zero'' None,
        add_base_at ''minus'' (Finite (- 1)), add_base_at ''half'' (Finite (1 / 2))])
       = [''minus'', ''zero'', ''half'', ''two'']"
proof (intro conjI impI)
  show "mset (sorted_plugins raw) = mset (map with_defaults raw)"
    by (simp add: sorted_plugins_def js_sort_mset)
next
  assume "\<forall>r \<in> set raw. order r \<noteq> Some NaN"
  then show "sorted_wrt in_order (sorted_plugins raw)" by (rule sorted_plugins_sorted)
next
  show "in_order p q =
       (\<exists>s m t n. stage p = Some s \<and> order p = Some m \<and> stage q = Some t \<and> order q = Some n
          \<and> (stage_index s < stage_index t \<or> (s = t \<and> number_le m n)))"
    by (cases "stage p"; cases "order p"; cases "stage q"; cases "order q")
      (simp_all add: in_order_def)
next
  show "filter (\<lambda>p. stage p = Some s \<and> order p = Some n) (sorted_plugins raw)
          = filter (\<lambda>p. stage p = Some s \<and> order p = Some n) (map with_defaults raw)"
    unfolding sorted_plugins_def by (rule js_sort_stable)
next
  show "build code ps b =
       then_res (run_plugins (filter (in_stage Before) ps) b) (\<lambda>b1.
       then_res (run_plugins (filter (in_stage Core) ps) b1) (\<lambda>b2.
       then_res (run_callbacks code postCoreCallbacks 0 b2) (\<lambda>b3.
       then_res (run_plugins (filter (in_stage After) ps) b3) (\<lambda>b4.
       then_res (run_callbacks code finalBuildCallbacks 0 b4) (\<lambda>b5.
       final_list b5)))))"
    by (rule build_phases)
next
  show "run_callbacks code queue i b =
       (if i < length (queue b)
        then then_res (code (queue b ! i) b) (run_callbacks code queue (Suc i))
        else ok b)"
    by (rule run_callbacks_step)
next
  assume "\<forall>c b0 b'. code c b0 = Some (Inr b') \<longrightarrow> queue b' = queue b0"
  then have "\<And>c b0 b'. code c b0 = Some (Inr b') \<Longrightarrow> queue b' = queue b0" by blast
  from run_callbacks_in_order [of code queue 0 b, OF this]
  show "run_callbacks code queue 0 b = run_in_order code (queue b) b" by simp
next
  show "arto no_callbacks no_code [] empty_config
        (Some [add_base_plugin ''C'' (Some After), add_base_plugin ''B'' None,
               add_base_plugin ''A'' (Some Before)]) None
       = Some (Inr ''A B C'')"
    by (rule example_ABC)
next
  show "map plugin_id (sorted_plugins [add_base_at ''two'' (Finite 2), add_base_plugin ''zero'' None,
        add_base_at ''minus'' (Finite (- 1)), add_base_at ''half'' (Finite (1 / 2))])
       = [''minus'', ''zero'', ''half'', ''two'']"
    by (rule example_orders)
qed (simp_all add: with_defaults_fields ClassNameBuilder_def)

theorem C2_plugin_order_witness:
  "run_callbacks no_code postCoreCallbacks 0
     (addPostCoreCallback 7 (addPostCoreCallback 3 (new_builder empty_config [] [])))
     = Some (Inr (addPostCoreCallback 7 (addPostCoreCallback 3 (new_builder empty_config [] []))))
   \<and> stage (with_defaults (add_base_plugin ''B'' None)) = Some Core
   \<and> order (with_defaults (add_base_plugin ''B'' None)) = Some (Finite 0)
   \<and> sorted_wrt in_order (sorted_plugins [add_base_at ''two'' (Finite 2),
        add_base_plugin ''zero'' None, add_base_at ''minus'' (Finite (- 1)),
        add_base_at ''half'' (Finite (1 / 2))])
   \<and> map plugin_id (filter (\<lambda>p. stage p = Some Core \<and> order p = Some (Finite 1))
        (sorted_plugins [add_base_at ''first'' (Finite 1), add_base_plugin ''zero'' None,
           add_base_at ''second'' (Finite 1)]))
      = [''first'', ''second'']
   \<and> map plugin_id (sorted_plugins [add_base_plugin ''C'' (Some After),
        add_base_plugin ''B'' None, add_base_plugin ''A'' (Some Before)])
      = [''A'', ''B'', ''C'']"
proof -
  let ?b = "addPostCoreCallback 7 (addPostCoreCallback 3 (new_builder empty_config [] []))"
  let ?ties = "[add_base_at ''first'' (Finite 1), add_base_plugin ''zero'' None,
      add_base_at ''second'' (Finite 1)]"
  note v = C2_plugin_order [where raw = ?ties and s = Core and n = "Finite 1"]
  let ?raw = "[add_base_at ''two'' (Finite 2), add_base_plugin ''zero'' None,
      add_base_at ''minus'' (Finite (- 1)), add_base_at ''half'' (Finite (1 / 2))]"
  note t = C2_plugin_order [where p = "add_base_plugin ''B'' None" and raw = ?raw
      and code = no_code and b = ?b and queue = postCoreCallbacks and i = 0]
  have k: "\<forall>c b0 b'. no_code c b0 = Some (Inr b') \<longrightarrow> postCoreCallbacks b' = postCoreCallbacks b0"
    by (simp add: no_code_def)
  have "run_callbacks no_code postCoreCallbacks 0 ?b = run_in_order no_code (postCoreCallbacks ?b) ?b"
    using t [THEN conjunct2, THEN conjunct2, THEN conjunct2, THEN conjunct2, THEN conjunct2,
        THEN conjunct2, THEN conjunct2, THEN conjunct2, THEN conjunct2, THEN conjunct2,
        THEN conjunct2, THEN conjunct2, THEN conjunct2, THEN conjunct1] k
    by blast
  then have 1: "run_callbacks no_code postCoreCallbacks 0 ?b = Some (Inr ?b)"
    by (simp add: addPostCoreCallback_def new_builder_def ClassNameBuilder_def no_code_def
        then_res_def ok_def)
  have 2: "stage (with_defaults (add_base_plugin ''B'' None)) = Some Core"
    using t [THEN conjunct1] by (simp add: add_base_plugin_def)
  have 3: "order (with_defaults (add_base_plugin ''B'' None)) = Some (Finite 0)"
    using t [THEN conjunct2, THEN conjunct1] by (simp add: add_base_plugin_def)
  have n: "\<forall>r \<in> set ?raw. order r \<noteq> Some NaN"
    by (simp add: add_base_at_def add_base_plugin_def)
  have 4: "sorted_wrt in_order (sorted_plugins ?raw)"
    using t [THEN conjunct2, THEN conjunct2, THEN conjunct2, THEN conjunct2, THEN conjunct2,
        THEN conjunct1] n
    by blast
  have 5: "map plugin_id (sorted_plugins [add_base_plugin ''C'' (Some After),
        add_base_plugin ''B'' None, add_base_plugin ''A'' (Some Before)])
      = [''A'', ''B'', ''C'']"
    by (simp add: sorted_plugins_def js_sort_def compare_plugins_def stage_rank_def
        order_or_0_def stagePriority_def with_defaults_fields add_base_plugin_def)
  have m: "\<forall>r \<in> set ?ties. order r \<noteq> Some NaN"
    by (simp add: add_base_at_def add_base_plugin_def)
  have "filter (\<lambda>p. stage p = Some Core \<and> order p = Some (Finite 1)) (sorted_plugins ?ties)
      = filter (\<lambda>p. stage p = Some Core \<and> order p = Some (Finite 1)) (map with_defaults ?ties)"
    using v [THEN conjunct2, THEN conjunct2, THEN conjunct2, THEN conjunct2, THEN conjunct2,
        THEN conjunct2, THEN conjunct2, THEN conjunct2, THEN conjunct2, THEN conjunct2,
        THEN conjunct1] m
    by blast
  then have 6: "map plugin_id (filter (\<lambda>p. stage p = Some Core \<and> order p = Some (Finite 1))
        (sorted_plugins ?ties)) = [''first'', ''second'']"
    by (simp add: with_defaults_fields add_base_at_def add_base_plugin_def)
  show ?thesis using 1 2 3 4 5 6 by simp
qed

text \<open>
  Claim C2 as it is written, for every plugin list, does not hold: \<^verbatim>\<open>NaN\<close> is a number, so
  the constructor keeps it as an order, and every comparison with it gives \<^verbatim>\<open>NaN\<close>, which
  the sort reads as a tie. Three plugins without stage of orders 2, \<^verbatim>\<open>NaN\<close> and 1, given
  in this order, stay in this order: the plugin of order 2 runs before the plugin of
  order 1, which has the same stage.
\<close>

theorem C2_nan_order_counterexample:
  "map plugin_id (sorted_plugins [add_base_at ''two'' (Finite 2), add_base_at ''nan'' NaN,
      add_base_at ''one'' (Finite 1)]) = [''two'', ''nan'', ''one'']
   \<and> map order (sorted_plugins [add_base_at ''two'' (Finite 2), add_base_at ''nan'' NaN,
      add_base_at ''one'' (Finite 1)]) = [Some (Finite 2), Some NaN, Some (Finite 1)]
   \<and> map stage (sorted_plugins [add_base_at ''two'' (Finite 2), add_base_at ''nan'' NaN,
      add_base_at ''one'' (Finite 1)]) = [Some Core, Some Core, Some Core]
   \<and> \<not> in_order (with_defaults (add_base_at ''two'' (Finite 2)))
        (with_defaults (add_base_at ''one'' (Finite 1)))
   \<and> \<not> sorted_wrt in_order (sorted_plugins [add_base_at ''two'' (Finite 2),
        add_base_at ''nan'' NaN, add_base_at ''one'' (Finite 1)])
   \<and> arto no_callbacks no_code [] empty_config
        (Some [add_base_at ''two'' (Finite 2), add_base_at ''nan'' NaN,
               add_base_at ''one'' (Finite 1)]) None
       = Some (Inr ''two nan one'')"
proof -
  let ?two = "with_defaults (add_base_at ''two'' (Finite 2))"
  let ?nan = "with_defaults (add_base_at ''nan'' NaN)"
  let ?one = "with_defaults (add_base_at ''one'' (Finite 1))"
  note s = example_NaN_sorted
  have f: "plugin_id ?two = ''two''" "plugin_id ?nan = ''nan''" "plugin_id ?one = ''one''"
    "order ?two = Some (Finite 2)" "order ?nan = Some NaN" "order ?one = Some (Finite 1)"
    "stage ?two = Some Core" "stage ?nan = Some Core" "stage ?one = Some Core"
    by (simp_all add: with_defaults_fields add_base_at_def)
  have ap: "plugin_apply ?two = (\<lambda>b. ok (addBaseClasses [''two''] b))"
    "plugin_apply ?nan = (\<lambda>b. ok (addBaseClasses [''nan''] b))"
    "plugin_apply ?one = (\<lambda>b. ok (addBaseClasses [''one''] b))"
    by (simp_all add: with_defaults_fields add_base_at_def)
  have n: "\<not> in_order ?two ?one" by (simp add: in_order_def f)
  have b: "build no_code [?two, ?nan, ?one] (new_builder empty_config [] [])
      = Some (Inr [''two'', ''nan'', ''one''])"
    by (rule core_plugins_build [OF f(7) f(8) f(9) ap])
  have a: "arto no_callbacks no_code [] empty_config
        (Some [add_base_at ''two'' (Finite 2), add_base_at ''nan'' NaN,
               add_base_at ''one'' (Finite 1)]) None
       = Some (Inr ''two nan one'')"
    unfolding arto_plugins_only s b by (simp add: then_res_def ok_def)
  show ?thesis unfolding s using f n a by simp
qed

section \<open>What build returns\<close>

text \<open>
  Claim C1 says that \<^verbatim>\<open>build\<close> ends its list with the buckets of the active global
  states. The code ends it with every global-state bucket: with no active state, a
  bucket for \<^verbatim>\<open>hover\<close> that \<^verbatim>\<open>addGlobalStateClasses\<close> has filled is returned all the
  same, by \<^verbatim>\<open>build\<close> on the builder and by \<^verbatim>\<open>arto\<close> when a plugin fills the bucket,
  while \<^verbatim>\<open>getAllClasses\<close> on the same builder leaves it out.
\<close>

theorem C1_inactive_global_state_emitted:
  "addGlobalStateClasses ''hover'' [''bg-hover''] (new_builder empty_config [] [])
     = Some (Inr hover_builder)
   \<and> activeStates hover_builder = []
   \<and> build no_code [] hover_builder = Some (Inr [''bg-hover''])
   \<and> getAllClasses hover_builder = Some (Inr [])
   \<and> arto no_callbacks no_code [] empty_config (Some [add_hover_plugin]) None
       = Some (Inr ''bg-hover'')"
proof -
  have q: "run_callbacks no_code queue 0 b = Some (Inr b)" if "queue b = []" for queue b
    using that by (simp add: run_callbacks_done)
  have h: "\<not> inherited ''hover''"
    by (simp add: inherited_def object_prototype_names_def)
  have 1: "activeStates hover_builder = []"
    by (simp add: hover_builder_def new_builder_def ClassNameBuilder_def)
  have 2: "build no_code [] hover_builder = Some (Inr [''bg-hover''])"
    by (simp add: build_def hover_builder_def new_builder_def
        ClassNameBuilder_def then_res_def ok_def q final_list_def)
  have 3: "getAllClasses hover_builder = Some (Inr [])"
    by (simp add: getAllClasses_def hover_builder_def new_builder_def
        ClassNameBuilder_def then_res_def ok_def empty_config_def)
  have a: "addGlobalStateClasses ''hover'' [''bg-hover''] (new_builder empty_config [] [])
      = ok hover_builder"
    using h by (simp add: addGlobalStateClasses_def hover_builder_def new_builder_def
        ClassNameBuilder_def obj_get_def)
  have s: "sorted_plugins [add_hover_plugin] = [with_defaults add_hover_plugin]"
    by (simp add: sorted_plugins_def js_sort_def)
  have p: "stage (with_defaults add_hover_plugin) = Some Core"
    "plugin_apply (with_defaults add_hover_plugin) = addGlobalStateClasses ''hover'' [''bg-hover'']"
    by (simp_all add: with_defaults_def add_hover_plugin_def)
  have b: "build no_code [with_defaults add_hover_plugin] (new_builder empty_config [] [])
      = Some (Inr [''bg-hover''])"
  proof -
    have "build no_code [with_defaults add_hover_plugin] (new_builder empty_config [] [])
        = then_res (plugin_apply (with_defaults add_hover_plugin) (new_builder empty_config [] []))
            final_list"
    proof (rule build_single_core [OF p(1)])
      fix b'
      assume "plugin_apply (with_defaults add_hover_plugin) (new_builder empty_config [] [])
          = Some (Inr b')"
      then have "b' = hover_builder" by (simp add: p(2) a ok_def)
      then show "postCoreCallbacks b' = [] \<and> finalBuildCallbacks b' = []"
        by (simp add: hover_builder_def new_builder_def ClassNameBuilder_def)
    qed
    also have "\<dots> = final_list hover_builder" by (simp add: p(2) a then_res_ok)
    also have "\<dots> = Some (Inr [''bg-hover''])"
      by (simp add: final_list_def hover_builder_def new_builder_def ClassNameBuilder_def
          then_res_def ok_def)
    finally show ?thesis .
  qed
  have 4: "arto no_callbacks no_code [] empty_config (Some [add_hover_plugin]) None
       = Some (Inr ''bg-hover'')"
    unfolding arto_plugins_only s b by (simp add: then_res_def ok_def)
  show ?thesis using a 1 2 3 4 by (simp add: ok_def)
qed


end
